theory Spec2Isabelle
  imports Main "HOL-Library.Multiset"
begin

section \<open>Data model\<close>

text \<open>
  Go strings and byte slices are byte sequences; both are modelled as \<open>string\<close>
  (a list of 8-bit characters).
\<close>

type_synonym bytes = string

text \<open>
  Errors as values. \<open>ErrNoVersionToSelect\<close> and \<open>ErrNoReleaseDownload\<close> are the
  package's two error variables; \<open>Errorf m\<close> is the value of \<open>fmt.Errorf(m)\<close>;
  \<open>ErrLibrary m\<close> is an error handed back by a library the package calls
  (os, net/http, gzip, tar, zip, json, signature).
\<close>

datatype error =
    ErrNoVersionToSelect
  | ErrNoReleaseDownload
  | Errorf string
  | ErrLibrary string

text \<open>
  Modelled from the spec: the declarations of the types \<open>Release\<close> and \<open>Asset\<close> are in
  another file of the package. Section 3 of the specification gives their fields.
\<close>

record Asset =
  Name :: string
  URL :: string

record Release =
  Tag :: string
  Prerelease :: bool
  Assets :: "Asset list"

section \<open>Library functions on strings and paths\<close>

definition strings_HasPrefix :: "string \<Rightarrow> string \<Rightarrow> bool" where
  "strings_HasPrefix s p = (length p \<le> length s \<and> take (length p) s = p)"

fun strings_Contains :: "string \<Rightarrow> string \<Rightarrow> bool" where
  "strings_Contains [] sub = strings_HasPrefix [] sub"
| "strings_Contains (c # cs) sub = (strings_HasPrefix (c # cs) sub \<or> strings_Contains cs sub)"

text \<open>\<open>strings.Split(s, "/")\<close>: the pieces between the separators, always at least one.\<close>

fun strings_Split :: "string \<Rightarrow> char \<Rightarrow> string list" where
  "strings_Split [] sep = [[]]"
| "strings_Split (c # cs) sep =
     (if c = sep then [] # strings_Split cs sep
      else (case strings_Split cs sep of
              [] \<Rightarrow> [[c]]
            | h # t \<Rightarrow> (c # h) # t))"

fun strings_Join :: "string list \<Rightarrow> string \<Rightarrow> string" where
  "strings_Join [] sep = []"
| "strings_Join [x] sep = x"
| "strings_Join (x # y # zs) sep = x @ sep @ strings_Join (y # zs) sep"

text \<open>The part of a path after its last slash (the whole path when it has none).\<close>

definition after_last_slash :: "string \<Rightarrow> string" where
  "after_last_slash p = rev (takeWhile (\<lambda>c. c \<noteq> CHR ''/'') (rev p))"

text \<open>
  \<open>path.Base\<close>: the empty path gives \<open>"."\<close>; trailing slashes are stripped; what follows
  the last slash is returned, and \<open>"/"\<close> when nothing is left.
\<close>

definition path_Base :: "string \<Rightarrow> string" where
  "path_Base p =
     (if p = [] then ''.''
      else let p1 = rev (dropWhile (\<lambda>c. c = CHR ''/'') (rev p));
               p2 = after_last_slash p1
           in if p2 = [] then ''/'' else p2)"

text \<open>
  \<open>path.Clean\<close>, element by element: empty elements and \<open>"."\<close> are dropped, \<open>".."\<close>
  removes the element before it when there is one to remove, is kept at the front of a
  relative path, and is dropped at the root; the empty result is \<open>"."\<close>.
\<close>

definition clean_step :: "bool \<Rightarrow> string list \<Rightarrow> string \<Rightarrow> string list" where
  "clean_step rooted st e =
     (if e = [] \<or> e = ''.'' then st
      else if e = ''..'' then
        (if st \<noteq> [] \<and> last st \<noteq> ''..'' then butlast st
         else if \<not> rooted then st @ [''..'']
         else st)
      else st @ [e])"

definition path_Clean :: "string \<Rightarrow> string" where
  "path_Clean p =
     (if p = [] then ''.''
      else let rooted = (hd p = CHR ''/'');
               st = foldl (clean_step rooted) [] (strings_Split p (CHR ''/''));
               out = (if rooted then ''/'' else []) @ strings_Join st ''/''
           in if out = [] then ''.'' else out)"

text \<open>\<open>path.Split\<close> cuts after the last slash; \<open>path.Dir\<close> cleans the first half.\<close>

definition path_Split :: "string \<Rightarrow> string \<times> string" where
  "path_Split p =
     (let f = after_last_slash p in (take (length p - length f) p, f))"

definition path_Dir :: "string \<Rightarrow> string" where
  "path_Dir p = path_Clean (fst (path_Split p))"


text \<open>\<open>filepath.Dir\<close> on a slash-separated platform is \<open>path.Dir\<close>.\<close>

definition filepath_Dir :: "string \<Rightarrow> string" where
  "filepath_Dir p = path_Dir p"

section \<open>Readers, the file system and the environment\<close>

text \<open>
  An \<open>io.Reader\<close> is the bytes it delivers and how it ends: \<open>None\<close> for the end of the
  data, \<open>Some e\<close> for a read error after them.
\<close>

type_synonym reader = "bytes \<times> error option"

text \<open>\<open>io.LimitReader(r, n)\<close> delivers at most \<open>n\<close> bytes and then reports the end.\<close>

definition io_LimitReader :: "reader \<Rightarrow> nat \<Rightarrow> reader" where
  "io_LimitReader r n =
     (if n \<le> length (fst r) then (take n (fst r), None) else r)"

text \<open>\<open>ioutil.ReadAll\<close> returns what was read together with the error that ended it.\<close>

definition ioutil_ReadAll :: "reader \<Rightarrow> bytes \<times> error option" where
  "ioutil_ReadAll r = r"

text \<open>A file is its content and its permission bits; the file system maps paths to files.\<close>

record fsfile =
  Data :: bytes
  Mode :: nat

type_synonym filesystem = "string \<Rightarrow> fsfile option"

text \<open>The operations the package asks of the operating system.\<close>

datatype osop =
    OpTempFile string string
  | OpWrite string
  | OpClose string
  | OpChmod string nat
  | OpRemove string
  | OpRename string string
  | OpOpen string

text \<open>
  What \<open>tr.Next()\<close> returns for one member of a tar stream: an error, or a header with
  the member's declared size, and the reader of its data. The end of the list is
  \<open>io.EOF\<close>.
\<close>

record tar_header =
  hdr_Name :: string
  hdr_Size :: int
  hdr_Data :: reader

datatype tar_next = TarErr error | TarHdr tar_header

text \<open>One entry of \<open>archive.File\<close> of a zip archive, with the outcome of \<open>file.Open()\<close>.\<close>

record zip_file =
  file_Name :: string
  file_UncompressedSize64 :: nat
  file_Open :: "error + reader"

record http_response =
  StatusCode :: nat
  Body :: reader

text \<open>
  Everything the file uses and does not define: the version comparator
  \<open>CompareVersions\<close>, \<open>releaseName\<close> and \<open>SigningKey\<close> of the package's other files,
  \<open>signature.Verify\<close>, the library's \<open>sort.Sort\<close>, the HTTP client, the JSON, gzip/tar
  and zip decoders, and the operating system: \<open>os_fail\<close> tells which operations the
  system refuses (and with which error) in a given state of the file system, and
  \<open>nextSuffix\<close> is the random number \<open>ioutil.TempFile\<close> draws for a file name.
  \<open>json_Decode\<close> returns the decoder's error together with the value it has stored in
  its target.
\<close>

record env =
  CompareVersions :: "string \<Rightarrow> string \<Rightarrow> int"
  releaseName :: "string \<Rightarrow> string"
  sort_Sort :: "(Release \<Rightarrow> Release \<Rightarrow> bool) \<Rightarrow> Release list \<Rightarrow> Release list"
  SigningKey :: bytes
  signature_Verify :: "bytes \<Rightarrow> bytes \<Rightarrow> bytes \<Rightarrow> error option"
  GOOS :: string
  http_Get :: "string \<Rightarrow> error + http_response"
  http_NewRequest :: "string \<Rightarrow> string \<Rightarrow> error option"
  http_Do :: "string \<Rightarrow> (string \<times> string) list \<Rightarrow> error + http_response"
  json_Decode :: "reader \<Rightarrow> error option \<times> Release list"
  gzip_tar_NewReader :: "reader \<Rightarrow> error + tar_next list"
  zip_NewReader :: "bytes \<Rightarrow> error + zip_file list"
  os_fail :: "filesystem \<Rightarrow> osop \<Rightarrow> error option"
  nextSuffix :: "filesystem \<Rightarrow> nat"

definition ENOENT :: error where
  "ENOENT = ErrLibrary ''no such file or directory''"

definition EEXIST :: error where
  "EEXIST = ErrLibrary ''file exists''"

text \<open>
  \<open>os.Remove\<close>, \<open>os.Rename\<close> and \<open>os.Open\<close>. An operation the system refuses, or whose
  file is missing, changes nothing. \<open>os.Rename\<close> replaces the destination.
\<close>

definition os_Remove :: "env \<Rightarrow> filesystem \<Rightarrow> string \<Rightarrow> error option \<times> filesystem" where
  "os_Remove E fs p =
     (case os_fail E fs (OpRemove p) of
        Some e \<Rightarrow> (Some e, fs)
      | None \<Rightarrow> (if fs p = None then (Some ENOENT, fs) else (None, fs(p := None))))"

definition os_Rename :: "env \<Rightarrow> filesystem \<Rightarrow> string \<Rightarrow> string \<Rightarrow> error option \<times> filesystem" where
  "os_Rename E fs a b =
     (case os_fail E fs (OpRename a b) of
        Some e \<Rightarrow> (Some e, fs)
      | None \<Rightarrow>
          (case fs a of
             None \<Rightarrow> (Some ENOENT, fs)
           | Some f \<Rightarrow> (None, (fs(a := None))(b \<mapsto> f))))"

definition os_Open :: "env \<Rightarrow> filesystem \<Rightarrow> string \<Rightarrow> error + bytes" where
  "os_Open E fs p =
     (case os_fail E fs (OpOpen p) of
        Some e \<Rightarrow> Inl e
      | None \<Rightarrow> (case fs p of None \<Rightarrow> Inl ENOENT | Some f \<Rightarrow> Inr (Data f)))"

text \<open>Decimal digits of a number, as \<open>strconv.Itoa\<close> writes them.\<close>

fun itoa :: "nat \<Rightarrow> string" where
  "itoa n =
     (if n < 10 then [''0123456789'' ! n]
      else itoa (n div 10) @ [''0123456789'' ! (n mod 10)])"

declare itoa.simps [simp del]

text \<open>
  \<open>ioutil.TempFile(dir, prefix)\<close> creates, exclusively and with mode 0600, the file
  \<open>dir/prefix<digits>\<close> for a random number; it never opens a file that exists. (The
  library draws again when the name is taken and gives up after many attempts; here the
  draw of the environment is the last one.)
\<close>

definition ioutil_TempFile :: "env \<Rightarrow> filesystem \<Rightarrow> string \<Rightarrow> string \<Rightarrow> (error + string) \<times> filesystem" where
  "ioutil_TempFile E fs dir prefix =
     (case os_fail E fs (OpTempFile dir prefix) of
        Some e \<Rightarrow> (Inl e, fs)
      | None \<Rightarrow>
          (let name = dir @ ''/'' @ prefix @ itoa (nextSuffix E fs)
           in if fs name \<noteq> None then (Inl EEXIST, fs)
              else (Inr name, fs(name \<mapsto> \<lparr>Data = [], Mode = 384\<rparr>))))"

text \<open>
  \<open>io.Copy(outFile, inFile)\<close>: the bytes of the reader are written to the file; the
  copy fails when the system refuses the write or when the reader ends in an error.
\<close>

definition io_Copy :: "env \<Rightarrow> filesystem \<Rightarrow> string \<Rightarrow> reader \<Rightarrow> error option \<times> filesystem" where
  "io_Copy E fs name r =
     (case os_fail E fs (OpWrite name) of
        Some e \<Rightarrow> (Some e, fs)
      | None \<Rightarrow>
          (let fs' = (case fs name of
                        None \<Rightarrow> fs
                      | Some f \<Rightarrow> fs(name \<mapsto> f\<lparr>Data := Data f @ fst r\<rparr>))
           in (snd r, fs')))"

definition os_Chmod :: "env \<Rightarrow> filesystem \<Rightarrow> string \<Rightarrow> nat \<Rightarrow> error option \<times> filesystem" where
  "os_Chmod E fs name m =
     (case os_fail E fs (OpChmod name m) of
        Some e \<Rightarrow> (Some e, fs)
      | None \<Rightarrow>
          (case fs name of
             None \<Rightarrow> (Some ENOENT, fs)
           | Some f \<Rightarrow> (None, fs(name \<mapsto> f\<lparr>Mode := m\<rparr>))))"

section \<open>The package\<close>

definition maxBinarySize :: nat where
  "maxBinarySize = push_bit 20 64"

definition maxSignatureSize :: nat where
  "maxSignatureSize = push_bit 10 1"

definition maxArchiveSize :: nat where
  "maxArchiveSize = maxBinarySize"

definition maxArchiveMembers :: nat where
  "maxArchiveMembers = 100"

definition maxMetadataSize :: nat where
  "maxMetadataSize = push_bit 10 100"

subsection \<open>Release catalog\<close>

text \<open>
  The decoder's error is dropped; what it has stored in \<open>rels\<close> is returned. A transport
  error and a status above 299 return the nil slice.
\<close>

definition FetchLatestReleases :: "env \<Rightarrow> string \<Rightarrow> string \<Rightarrow> Release list" where
  "FetchLatestReleases E releasesURL version =
     (case http_Get E releasesURL of
        Inl err \<Rightarrow> []
      | Inr resp \<Rightarrow>
          (if StatusCode resp > 299 then []
           else snd (json_Decode E (io_LimitReader (Body resp) maxMetadataSize))))"

definition SortByRelease_Less :: "env \<Rightarrow> Release \<Rightarrow> Release \<Rightarrow> bool" where
  "SortByRelease_Less E a b = (CompareVersions E (Tag a) (Tag b) > 0)"

text \<open>The inner loop of \<open>SelectLatestRelease\<close>: does an asset of the release match?\<close>

fun SelectLatestRelease_assets :: "env \<Rightarrow> Release \<Rightarrow> Asset list \<Rightarrow> bool" where
  "SelectLatestRelease_assets E rel [] = False"
| "SelectLatestRelease_assets E rel (asset # assets) =
     (let assetName = path_Base (Name asset);
          expectedRelease = releaseName E (Tag rel)
      in if strings_HasPrefix assetName expectedRelease then True
         else SelectLatestRelease_assets E rel assets)"

text \<open>The outer loop, over the sorted releases.\<close>

fun SelectLatestRelease_loop :: "env \<Rightarrow> bool \<Rightarrow> Release list \<Rightarrow> error + Release" where
  "SelectLatestRelease_loop E beta [] = Inl ErrNoReleaseDownload"
| "SelectLatestRelease_loop E beta (rel # rels) =
     (if Prerelease rel \<and> \<not> beta then SelectLatestRelease_loop E beta rels
      else if SelectLatestRelease_assets E rel (Assets rel) then Inr rel
      else SelectLatestRelease_loop E beta rels)"

text \<open>
  \<open>SelectLatestRelease\<close> sorts the caller's slice in place, so the function returns its
  result together with the content of the slice after the call.
\<close>

definition SelectLatestRelease :: "env \<Rightarrow> string \<Rightarrow> Release list \<Rightarrow> (error + Release) \<times> Release list" where
  "SelectLatestRelease E version rels =
     (if length rels = 0 then (Inl ErrNoVersionToSelect, rels)
      else let rels' = sort_Sort E (SortByRelease_Less E) rels;
               beta = strings_Contains version ''-''
           in (SelectLatestRelease_loop E beta rels', rels'))"

definition LatestRelease :: "env \<Rightarrow> string \<Rightarrow> string \<Rightarrow> error + Release" where
  "LatestRelease E releasesURL version =
     (let rels = FetchLatestReleases E releasesURL version
      in fst (SelectLatestRelease E version rels))"


subsection \<open>Signature verifier\<close>

text \<open>
  The multi-reader serves the archive name, a newline and the content of the temporary
  file; \<open>signature.Verify\<close> gets these bytes. The error of \<open>os.Remove\<close> is ignored.
\<close>

definition verifyUpgrade :: "env \<Rightarrow> filesystem \<Rightarrow> string \<Rightarrow> string \<Rightarrow> bytes option \<Rightarrow> error option \<times> filesystem" where
  "verifyUpgrade E fs archiveName tempName sig =
     (if tempName = [] then (Some (Errorf ''no upgrade found''), fs)
      else case sig of
        None \<Rightarrow> (Some (Errorf ''no signature found''), fs)
      | Some sg \<Rightarrow>
          (case os_Open E fs tempName of
             Inl err \<Rightarrow> (Some err, fs)
           | Inr fd \<Rightarrow>
               (let mr = (archiveName @ [CHR 0x0A]) @ fd
                in case signature_Verify E (SigningKey E) sg mr of
                     Some err \<Rightarrow> (Some err, snd (os_Remove E fs tempName))
                   | None \<Rightarrow> (None, fs))))"

subsection \<open>Archive extractor\<close>

definition writeBinary :: "env \<Rightarrow> filesystem \<Rightarrow> string \<Rightarrow> reader \<Rightarrow> (error + string) \<times> filesystem" where
  "writeBinary E fs dir inFile =
     (case ioutil_TempFile E fs dir ''syncthing'' of
        (Inl err, fs1) \<Rightarrow> (Inl err, fs1)
      | (Inr outFile, fs1) \<Rightarrow>
          (case io_Copy E fs1 outFile inFile of
             (Some err, fs2) \<Rightarrow> (Inl err, snd (os_Remove E fs2 outFile))
           | (None, fs2) \<Rightarrow>
               (case os_fail E fs2 (OpClose outFile) of
                  Some err \<Rightarrow> (Inl err, snd (os_Remove E fs2 outFile))
                | None \<Rightarrow>
                    (case os_Chmod E fs2 outFile 493 of
                       (Some err, fs3) \<Rightarrow> (Inl err, snd (os_Remove E fs3 outFile))
                     | (None, fs3) \<Rightarrow> (Inr outFile, fs3)))))"

text \<open>
  The visitor returns its error with the values of \<open>*tempFile\<close> and \<open>*signature\<close> and
  the file system after the call. A failed \<open>writeBinary\<close> stores the empty name; a
  failed \<open>ReadAll\<close> stores what it has read.
\<close>

definition archiveFileVisitor ::
  "env \<Rightarrow> filesystem \<Rightarrow> string \<Rightarrow> string \<Rightarrow> bytes option \<Rightarrow> string \<Rightarrow> reader
     \<Rightarrow> error option \<times> string \<times> bytes option \<times> filesystem" where
  "archiveFileVisitor E fs dir tempFile signature archivePath filedata =
     (let filename = path_Base archivePath;
          archiveDir = path_Dir archivePath
      in if filename = ''syncthing'' \<or> filename = ''syncthing.exe'' then
           (let archiveDirs = strings_Split archiveDir (CHR ''/'')
            in if length archiveDirs > 1 then (None, tempFile, signature, fs)
               else (case writeBinary E fs dir (io_LimitReader filedata maxBinarySize) of
                       (Inl err, fs') \<Rightarrow> (Some err, [], signature, fs')
                     | (Inr name, fs') \<Rightarrow> (None, name, signature, fs')))
         else if filename = ''release.sig'' then
           (case ioutil_ReadAll (io_LimitReader filedata maxSignatureSize) of
              (b, Some err) \<Rightarrow> (Some err, tempFile, Some b, fs)
            | (b, None) \<Rightarrow> (None, tempFile, Some b, fs))
         else (None, tempFile, signature, fs))"

text \<open>
  The loop of \<open>readTarGz\<close>: \<open>i\<close> counts the calls of \<open>tr.Next()\<close>; the loop returns an
  error, or the temporary name and signature it ends with.
\<close>

fun readTarGz_loop ::
  "env \<Rightarrow> string \<Rightarrow> nat \<Rightarrow> string \<Rightarrow> bytes option \<Rightarrow> filesystem \<Rightarrow> tar_next list
     \<Rightarrow> error option \<times> string \<times> bytes option \<times> filesystem" where
  "readTarGz_loop E dir i tempName sig fs [] =
     (None, tempName, sig, fs)"
| "readTarGz_loop E dir i tempName sig fs (nxt # rest) =
     (if i \<ge> maxArchiveMembers then (None, tempName, sig, fs)
      else case nxt of
        TarErr err \<Rightarrow> (Some err, tempName, sig, fs)
      | TarHdr hdr \<Rightarrow>
          (if hdr_Size hdr > int maxBinarySize then (None, tempName, sig, fs)
           else case archiveFileVisitor E fs dir tempName sig (hdr_Name hdr) (hdr_Data hdr) of
             (Some err, tempName', sig', fs') \<Rightarrow> (Some err, tempName', sig', fs')
           | (None, tempName', sig', fs') \<Rightarrow>
               (if tempName' \<noteq> [] \<and> sig' \<noteq> None then (None, tempName', sig', fs')
                else readTarGz_loop E dir (i + 1) tempName' sig' fs' rest)))"

definition readTarGz :: "env \<Rightarrow> filesystem \<Rightarrow> string \<Rightarrow> string \<Rightarrow> reader \<Rightarrow> (error + string) \<times> filesystem" where
  "readTarGz E fs archiveName dir r =
     (case gzip_tar_NewReader E r of
        Inl err \<Rightarrow> (Inl err, fs)
      | Inr tr \<Rightarrow>
          (case readTarGz_loop E dir 0 [] None fs tr of
             (Some err, tempName, sig, fs1) \<Rightarrow> (Inl err, fs1)
           | (None, tempName, sig, fs1) \<Rightarrow>
               (case verifyUpgrade E fs1 archiveName tempName sig of
                  (Some err, fs2) \<Rightarrow> (Inl err, fs2)
                | (None, fs2) \<Rightarrow> (Inr tempName, fs2))))"

fun readZip_loop ::
  "env \<Rightarrow> string \<Rightarrow> nat \<Rightarrow> string \<Rightarrow> bytes option \<Rightarrow> filesystem \<Rightarrow> zip_file list
     \<Rightarrow> error option \<times> string \<times> bytes option \<times> filesystem" where
  "readZip_loop E dir i tempName sig fs [] =
     (None, tempName, sig, fs)"
| "readZip_loop E dir i tempName sig fs (file # rest) =
     (if i \<ge> maxArchiveMembers then (None, tempName, sig, fs)
      else if file_UncompressedSize64 file > maxBinarySize then (None, tempName, sig, fs)
      else case file_Open file of
        Inl err \<Rightarrow> (Some err, tempName, sig, fs)
      | Inr inFile \<Rightarrow>
          (case archiveFileVisitor E fs dir tempName sig (file_Name file) inFile of
             (Some err, tempName', sig', fs') \<Rightarrow> (Some err, tempName', sig', fs')
           | (None, tempName', sig', fs') \<Rightarrow>
               (if tempName' \<noteq> [] \<and> sig' \<noteq> None then (None, tempName', sig', fs')
                else readZip_loop E dir (i + 1) tempName' sig' fs' rest)))"

definition readZip :: "env \<Rightarrow> filesystem \<Rightarrow> string \<Rightarrow> string \<Rightarrow> reader \<Rightarrow> (error + string) \<times> filesystem" where
  "readZip E fs archiveName dir r =
     (case ioutil_ReadAll r of
        (body, Some err) \<Rightarrow> (Inl err, fs)
      | (body, None) \<Rightarrow>
          (case zip_NewReader E body of
             Inl err \<Rightarrow> (Inl err, fs)
           | Inr archive \<Rightarrow>
               (case readZip_loop E dir 0 [] None fs archive of
                  (Some err, tempName, sig, fs1) \<Rightarrow> (Inl err, fs1)
                | (None, tempName, sig, fs1) \<Rightarrow>
                    (case verifyUpgrade E fs1 archiveName tempName sig of
                       (Some err, fs2) \<Rightarrow> (Inl err, fs2)
                     | (None, fs2) \<Rightarrow> (Inr tempName, fs2)))))"

definition readRelease :: "env \<Rightarrow> filesystem \<Rightarrow> string \<Rightarrow> string \<Rightarrow> string \<Rightarrow> (error + string) \<times> filesystem" where
  "readRelease E fs archiveName dir url =
     (case http_NewRequest E ''GET'' url of
        Some err \<Rightarrow> (Inl err, fs)
      | None \<Rightarrow>
          (case http_Do E url [(''Accept'', ''application/octet-stream'')] of
             Inl err \<Rightarrow> (Inl err, fs)
           | Inr resp \<Rightarrow>
               (if GOOS E = ''windows''
                then readZip E fs archiveName dir (io_LimitReader (Body resp) maxArchiveSize)
                else readTarGz E fs archiveName dir (io_LimitReader (Body resp) maxArchiveSize))))"

subsection \<open>Installer\<close>

definition upgradeToURL :: "env \<Rightarrow> filesystem \<Rightarrow> string \<Rightarrow> string \<Rightarrow> string \<Rightarrow> error option \<times> filesystem" where
  "upgradeToURL E fs archiveName binary url =
     (case readRelease E fs archiveName (filepath_Dir binary) url of
        (Inl err, fs1) \<Rightarrow> (Some err, fs1)
      | (Inr fname, fs1) \<Rightarrow>
          (let old = binary @ ''.old'';
               fs2 = snd (os_Remove E fs1 old)
           in case os_Rename E fs2 binary old of
                (Some err, fs3) \<Rightarrow> (Some err, fs3)
              | (None, fs3) \<Rightarrow>
                  (case os_Rename E fs3 fname binary of
                     (Some err, fs4) \<Rightarrow> (Some err, fs4)
                   | (None, fs4) \<Rightarrow> (None, fs4))))"

fun upgradeTo_loop :: "env \<Rightarrow> filesystem \<Rightarrow> string \<Rightarrow> string \<Rightarrow> Asset list \<Rightarrow> error option \<times> filesystem" where
  "upgradeTo_loop E fs binary expectedRelease [] = (Some ErrNoReleaseDownload, fs)"
| "upgradeTo_loop E fs binary expectedRelease (asset # assets) =
     (let assetName = path_Base (Name asset)
      in if strings_HasPrefix assetName expectedRelease
         then upgradeToURL E fs assetName binary (URL asset)
         else upgradeTo_loop E fs binary expectedRelease assets)"

definition upgradeTo :: "env \<Rightarrow> filesystem \<Rightarrow> string \<Rightarrow> Release \<Rightarrow> error option \<times> filesystem" where
  "upgradeTo E fs binary rel = upgradeTo_loop E fs binary (releaseName E (Tag rel)) (Assets rel)"


section \<open>Words of the specification\<close>

text \<open>
  A release is eligible when it is not a prerelease, or the running version is a beta
  (its string contains \<open>"-"\<close>).
\<close>

definition eligible :: "string \<Rightarrow> Release \<Rightarrow> bool" where
  "eligible version rel = (Prerelease rel \<longrightarrow> strings_Contains version ''-'')"

text \<open>
  A release has a matching asset when the base name of one of its assets starts with the
  prefix expected for its tag on this platform.
\<close>

definition has_matching_asset :: "env \<Rightarrow> Release \<Rightarrow> bool" where
  "has_matching_asset E rel =
     (\<exists>asset \<in> set (Assets rel).
        strings_HasPrefix (path_Base (Name asset)) (releaseName E (Tag rel)))"

text \<open>
  What \<open>sort.Sort\<close> promises for the slice \<open>rels\<close>: the result is a rearrangement of the
  slice in which no element is \<open>Less\<close> than an element before it.
\<close>

definition sort_Sort_contract :: "env \<Rightarrow> Release list \<Rightarrow> bool" where
  "sort_Sort_contract E rels =
     (mset (sort_Sort E (SortByRelease_Less E) rels) = mset rels \<and>
      sorted_wrt (\<lambda>a b. \<not> SortByRelease_Less E b a) (sort_Sort E (SortByRelease_Less E) rels))"

text \<open>
  A plain directory name: not empty, without a slash, and neither \<open>"."\<close> nor \<open>".."\<close>.
\<close>

definition plain_name :: "string \<Rightarrow> bool" where
  "plain_name d = (d \<noteq> [] \<and> CHR ''/'' \<notin> set d \<and> d \<noteq> ''.'' \<and> d \<noteq> ''..'')"

text \<open>
  The names \<open>ioutil.TempFile(dir, "syncthing")\<close> can give, and the relation between the
  file system before an extraction and a later one: a path holds what it held, or it was
  free and is a temporary name.
\<close>

definition is_temp_name :: "string \<Rightarrow> string \<Rightarrow> bool" where
  "is_temp_name dir q = (\<exists>n. q = dir @ ''/'' @ ''syncthing'' @ itoa n)"

definition touches_only_temp :: "string \<Rightarrow> filesystem \<Rightarrow> filesystem \<Rightarrow> bool" where
  "touches_only_temp dir fs0 fs = (\<forall>q. fs q = fs0 q \<or> (fs0 q = None \<and> is_temp_name dir q))"

text \<open>
  What holds during a scan that started in the file system \<open>fs0\<close>: only temporary names
  have changed, and the temporary name in hand, when there is one, was free at the start.
\<close>

definition scan_inv :: "string \<Rightarrow> filesystem \<Rightarrow> string \<Rightarrow> filesystem \<Rightarrow> bool" where
  "scan_inv dir fs0 tempName fs =
     (touches_only_temp dir fs0 fs \<and>
      (tempName \<noteq> [] \<longrightarrow> is_temp_name dir tempName \<and> fs0 tempName = None))"

text \<open>
  The file \<open>fname\<close> holds a binary that \<open>signature.Verify\<close> accepts for the archive name
  with some signature.
\<close>

definition verified_artifact :: "env \<Rightarrow> string \<Rightarrow> filesystem \<Rightarrow> string \<Rightarrow> bool" where
  "verified_artifact E archiveName fs fname =
     (\<exists>sg f. fs fname = Some f \<and>
        signature_Verify E (SigningKey E) sg (archiveName @ [CHR 0x0A] @ Data f) = None)"

text \<open>
  A member the visitor has no use for: its base name is neither a binary's nor the
  signature's.
\<close>

definition other_member :: "string \<Rightarrow> bool" where
  "other_member p =
     (path_Base p \<noteq> ''syncthing'' \<and> path_Base p \<noteq> ''syncthing.exe'' \<and>
      path_Base p \<noteq> ''release.sig'')"

section \<open>A concrete environment\<close>

text \<open>A comparator for concrete runs: byte-wise order of the tags.\<close>

fun compare_bytes :: "string \<Rightarrow> string \<Rightarrow> int" where
  "compare_bytes [] [] = 0"
| "compare_bytes [] (y # ys) = - 1"
| "compare_bytes (x # xs) [] = 1"
| "compare_bytes (x # xs) (y # ys) =
     (if (of_char x :: nat) < of_char y then - 1
      else if (of_char y :: nat) < of_char x then 1
      else compare_bytes xs ys)"

text \<open>
  The library's \<open>insertionSort\<close>: each element moves left past the elements it is
  \<open>Less\<close> than. The sorted part is kept in reverse.
\<close>

fun insertionSort_insert :: "('a \<Rightarrow> 'a \<Rightarrow> bool) \<Rightarrow> 'a \<Rightarrow> 'a list \<Rightarrow> 'a list" where
  "insertionSort_insert lt x [] = [x]"
| "insertionSort_insert lt x (y # r) =
     (if lt x y then y # insertionSort_insert lt x r else x # y # r)"

definition insertionSort :: "('a \<Rightarrow> 'a \<Rightarrow> bool) \<Rightarrow> 'a list \<Rightarrow> 'a list" where
  "insertionSort lt xs = rev (foldl (\<lambda>r x. insertionSort_insert lt x r) [] xs)"

text \<open>
  The library's \<open>sort.Sort\<close> (Go 1.19 and later) runs \<open>pdqsort\<close>, a pattern-defeating
  quicksort. A slice of at most 12 elements is sorted by \<open>insertionSort\<close>. A longer slice
  gets a pivot from \<open>choosePivot\<close>: for fewer than 50 elements the median of the
  elements at \<open>l/4\<close>, \<open>2l/4\<close> and \<open>3l/4\<close>, returned with the number of swaps the median
  took. When no swap was needed and the slice is in order already
  (\<open>partialInsertionSort\<close>, which moves nothing in a slice of fewer than 50 elements),
  the slice is left as it is. Otherwise \<open>partition\<close> swaps the pivot to the front, moves
  the elements \<open>Less\<close> than the pivot to the left and all others, the equal ones among
  them, to the right, and puts the pivot between them; then both sides are sorted.

  \<open>slice_Swap\<close> is \<open>data.Swap\<close>. \<open>partition_up\<close> and \<open>partition_down\<close> are the two inner
  loops of \<open>partition\<close> and \<open>partition_loop\<close> is its outer loop; \<open>e\<close> stands for \<open>j + 1\<close>,
  so that the index stays a natural number.
\<close>

definition slice_Swap :: "'a list \<Rightarrow> nat \<Rightarrow> nat \<Rightarrow> 'a list" where
  "slice_Swap xs i j = xs[i := xs ! j, j := xs ! i]"

definition order2 :: "('a \<Rightarrow> 'a \<Rightarrow> bool) \<Rightarrow> 'a list \<Rightarrow> nat \<Rightarrow> nat \<Rightarrow> nat \<Rightarrow> (nat \<times> nat) \<times> nat" where
  "order2 lt xs a b swaps =
     (if lt (xs ! b) (xs ! a) then ((b, a), swaps + 1) else ((a, b), swaps))"

definition median :: "('a \<Rightarrow> 'a \<Rightarrow> bool) \<Rightarrow> 'a list \<Rightarrow> nat \<Rightarrow> nat \<Rightarrow> nat \<Rightarrow> nat \<Rightarrow> nat \<times> nat" where
  "median lt xs a b c swaps =
     (case order2 lt xs a b swaps of ((a1, b1), s1) \<Rightarrow>
      case order2 lt xs b1 c s1 of ((b2, c2), s2) \<Rightarrow>
      case order2 lt xs a1 b2 s2 of ((a3, b3), s3) \<Rightarrow> (b3, s3))"

definition choosePivot :: "('a \<Rightarrow> 'a \<Rightarrow> bool) \<Rightarrow> 'a list \<Rightarrow> nat \<Rightarrow> nat \<Rightarrow> nat \<times> nat" where
  "choosePivot lt xs a b =
     (let l = b - a;
          i = a + l div 4 * 1;
          j = a + l div 4 * 2;
          k = a + l div 4 * 3
      in if l \<ge> 8 then median lt xs i j k 0 else (j, 0))"

definition partialInsertionSort :: "('a \<Rightarrow> 'a \<Rightarrow> bool) \<Rightarrow> 'a list \<Rightarrow> bool" where
  "partialInsertionSort lt xs = list_all (\<lambda>i. \<not> lt (xs ! i) (xs ! (i - 1))) [1 ..< length xs]"

function partition_up :: "('a \<Rightarrow> 'a \<Rightarrow> bool) \<Rightarrow> 'a list \<Rightarrow> nat \<Rightarrow> nat \<Rightarrow> nat \<Rightarrow> nat" where
  "partition_up lt xs a i e =
     (if i < e \<and> lt (xs ! i) (xs ! a) then partition_up lt xs a (i + 1) e else i)"
  by pat_completeness auto
termination
  by (relation "measure (\<lambda>(lt, xs, a, i, e). e - i)") auto

declare partition_up.simps [simp del]

function partition_down :: "('a \<Rightarrow> 'a \<Rightarrow> bool) \<Rightarrow> 'a list \<Rightarrow> nat \<Rightarrow> nat \<Rightarrow> nat \<Rightarrow> nat" where
  "partition_down lt xs a i e =
     (if i < e \<and> \<not> lt (xs ! (e - 1)) (xs ! a) then partition_down lt xs a i (e - 1) else e)"
  by pat_completeness auto
termination
  by (relation "measure (\<lambda>(lt, xs, a, i, e). e - i)") auto

declare partition_down.simps [simp del]

function partition_loop :: "('a \<Rightarrow> 'a \<Rightarrow> bool) \<Rightarrow> 'a list \<Rightarrow> nat \<Rightarrow> nat \<Rightarrow> nat \<Rightarrow> 'a list \<times> nat" where
  "partition_loop lt xs a i e =
     (let i' = partition_up lt xs a i e;
          e' = partition_down lt xs a i' e
      in if e' \<le> i' then (slice_Swap xs (e' - 1) a, e' - 1)
         else partition_loop lt (slice_Swap xs i' (e' - 1)) a (i' + 1) (e' - 1))"
  by pat_completeness auto
termination
proof (relation "measure (\<lambda>(lt, xs, a, i, e). e - i)")
  show "wf (measure (\<lambda>(lt, xs, a, i, e). e - i))" by simp
next
  fix lt :: "'a \<Rightarrow> 'a \<Rightarrow> bool" and xs :: "'a list" and a i e i' e' :: nat
  assume i': "i' = partition_up lt xs a i e" and e': "e' = partition_down lt xs a i' e"
    and c: "\<not> e' \<le> i'"
  have up: "i \<le> partition_up lt xs a i e" for i
    by (induction lt xs a i e rule: partition_up.induct) (subst partition_up.simps, auto)
  have down: "partition_down lt xs a j e \<le> e" for j
    by (induction lt xs a j e rule: partition_down.induct) (subst partition_down.simps, auto)
  from up[of i] down[of i'] i' e' c
  show "((lt, slice_Swap xs i' (e' - 1), a, i' + 1, e' - 1), (lt, xs, a, i, e))
          \<in> measure (\<lambda>(lt, xs, a, i, e). e - i)" by simp
qed

declare partition_loop.simps [simp del]

definition partition_slice :: "('a \<Rightarrow> 'a \<Rightarrow> bool) \<Rightarrow> 'a list \<Rightarrow> nat \<Rightarrow> nat \<Rightarrow> nat \<Rightarrow> 'a list \<times> nat" where
  "partition_slice lt xs a b pivot = partition_loop lt (slice_Swap xs a pivot) a (a + 1) b"

text \<open>
  The sides of a slice of 13 elements have at most 12 elements, and the library sorts
  them by \<open>insertionSort\<close>. The definition does so for every longer slice too, where
  the library would partition a long side again. The library's other branches are not
  reached on the first pass over a slice of fewer than 50 elements: \<open>reverseRange\<close> needs
  the 12 swaps of the ninther, \<open>partitionEqual\<close> needs \<open>a > 0\<close>, \<open>breakPatterns\<close> an
  unbalanced partition before, and \<open>heapSort\<close> a used-up limit. So \<open>pdqsort\<close> is the
  library's computation on a slice of at most 13 elements, and on every slice a sort
  that meets the library's contract.
\<close>

definition pdqsort :: "('a \<Rightarrow> 'a \<Rightarrow> bool) \<Rightarrow> 'a list \<Rightarrow> 'a list" where
  "pdqsort lt xs =
     (if length xs \<le> 12 then insertionSort lt xs
      else case choosePivot lt xs 0 (length xs) of (pivot, swaps) \<Rightarrow>
        if swaps = 0 \<and> partialInsertionSort lt xs then xs
        else case partition_slice lt xs 0 (length xs) pivot of (ys, mid) \<Rightarrow>
          insertionSort lt (take mid ys) @ [ys ! mid] @ insertionSort lt (drop (mid + 1) ys))"

text \<open>
  A toy signature scheme: the signature of a message under the key \<open>k\<close> is the key
  followed by the message reversed.
\<close>

definition toy_Verify :: "bytes \<Rightarrow> bytes \<Rightarrow> bytes \<Rightarrow> error option" where
  "toy_Verify key sg msg =
     (if sg = key @ rev msg then None else Some (ErrLibrary ''incorrect signature''))"

text \<open>
  A stand-in for the JSON decoder, on three metadata bodies. The first is a well-formed
  array whose only release has a string where the boolean \<open>prerelease\<close> is expected:
  \<open>encoding/json\<close> reports the type error and, as its documentation says, skips that
  field and completes the rest, so the slice holds the release. The empty array decodes
  to no release without an error. Any other body counts as malformed: an error, and
  nothing stored.
\<close>

definition body_bad_type :: bytes where
  \<open>body_bad_type = ''[{"tag_name":"v1.2.0","prerelease":"yes"}]''\<close>

definition toy_Decode :: "reader \<Rightarrow> error option \<times> Release list" where
  "toy_Decode r =
     (if fst r = body_bad_type then
        (Some (ErrLibrary ''json: cannot unmarshal string into Go struct field Release.prerelease of type bool''),
         [\<lparr>Tag = ''v1.2.0'', Prerelease = False, Assets = []\<rparr>])
      else if fst r = ''[]'' then (None, [])
      else (Some (ErrLibrary ''invalid character''), []))"

definition env0 :: env where
  "env0 = \<lparr>
     CompareVersions = compare_bytes,
     releaseName = (\<lambda>tag. ''syncthing-linux-amd64-'' @ tag @ ''.''),
     sort_Sort = pdqsort,
     SigningKey = ''K'',
     signature_Verify = toy_Verify,
     GOOS = ''linux'',
     http_Get = (\<lambda>url. Inl (ErrLibrary ''connection refused'')),
     http_NewRequest = (\<lambda>m url. None),
     http_Do = (\<lambda>url hs. Inl (ErrLibrary ''connection refused'')),
     json_Decode = toy_Decode,
     gzip_tar_NewReader = (\<lambda>r. Inl (ErrLibrary ''gzip: invalid header'')),
     zip_NewReader = (\<lambda>b. Inl (ErrLibrary ''zip: not a valid zip file'')),
     os_fail = (\<lambda>fs op. None),
     nextSuffix = (\<lambda>fs. 42)
   \<rparr>"

section \<open>Concrete inputs\<close>

definition mk_release :: "string \<Rightarrow> bool \<Rightarrow> string list \<Rightarrow> Release" where
  "mk_release tag pre names =
     \<lparr>Tag = tag, Prerelease = pre,
      Assets = map (\<lambda>n. \<lparr>Name = n, URL = ''https://x/'' @ n\<rparr>) names\<rparr>"

definition rel_110 :: Release where
  "rel_110 = mk_release ''v1.1.0'' False [''syncthing-linux-amd64-v1.1.0.tar.gz'']"

definition rel_120 :: Release where
  "rel_120 = mk_release ''v1.2.0'' False
     [''syncthing-windows-amd64-v1.2.0.zip'', ''syncthing-linux-amd64-v1.2.0.tar.gz'']"

definition rel_130rc :: Release where
  "rel_130rc = mk_release ''v1.3.0-rc.1'' True [''syncthing-linux-amd64-v1.3.0-rc.1.tar.gz'']"

definition rel_140win :: Release where
  "rel_140win = mk_release ''v1.4.0'' False [''syncthing-windows-amd64-v1.4.0.zip'']"

definition rels_w :: "Release list" where
  "rels_w = [rel_110, rel_130rc, rel_140win, rel_120]"

text \<open>
  Thirteen releases, as a catalog lists them newest first, with one more release in
  front: \<open>rel_A\<close> (first) and \<open>rel_A'\<close> (seventh) carry the same tag; the five release
  candidates are newer and the six others older.
\<close>

definition rel_A :: Release where
  "rel_A = mk_release ''v1.0.0'' False [''syncthing-linux-amd64-v1.0.0.tar.gz'']"

definition rel_A' :: Release where
  "rel_A' = mk_release ''v1.0.0'' False
     [''syncthing-linux-amd64-v1.0.0.tar.gz'', ''syncthing-linux-amd64-v1.0.0.tar.gz.asc'']"

definition rel_old :: "string \<Rightarrow> Release" where
  "rel_old tag = mk_release tag False [''syncthing-linux-amd64-'' @ tag @ ''.tar.gz'']"

definition rel_rc :: "string \<Rightarrow> Release" where
  "rel_rc tag = mk_release tag True [''syncthing-linux-amd64-'' @ tag @ ''.tar.gz'']"

definition rels_cx :: "Release list" where
  "rels_cx = [rel_A,
     rel_rc ''v1.1.0-rc.5'', rel_rc ''v1.1.0-rc.4'', rel_rc ''v1.1.0-rc.3'',
     rel_rc ''v1.1.0-rc.2'', rel_rc ''v1.1.0-rc.1'',
     rel_A',
     rel_old ''v0.9.0'', rel_old ''v0.8.0'', rel_old ''v0.7.0'',
     rel_old ''v0.6.0'', rel_old ''v0.5.0'', rel_old ''v0.4.0'']"

definition rels_win :: "Release list" where
  "rels_win = [mk_release ''v1.1.0'' False [''syncthing-windows-amd64-v1.1.0.zip''], rel_140win]"

text \<open>A file system holding the running binary, and a member's data.\<close>

definition disk0 :: filesystem where
  "disk0 = Map.empty(''/opt/st/syncthing'' \<mapsto> \<lparr>Data = ''OLD'', Mode = 493\<rparr>)"

definition disk1 :: filesystem where
  "disk1 = disk0(''/opt/st/syncthing42'' \<mapsto> \<lparr>Data = ''NEW'', Mode = 493\<rparr>)"

text \<open>The toy signature of the archive \<open>a.tar.gz\<close> with the binary \<open>NEW\<close>.\<close>

definition sig_good :: bytes where
  "sig_good = ''K'' @ rev (''a.tar.gz'' @ [CHR 0x0A] @ ''NEW'')"

text \<open>
  Members of a release archive, and environments whose download is a tar archive (on
  linux) or a zip archive (on windows) with given members.
\<close>

definition member_bin :: tar_header where
  "member_bin = \<lparr>hdr_Name = ''syncthing-linux-amd64-v1.2.0/syncthing'', hdr_Size = 3,
                 hdr_Data = (''NEW'', None)\<rparr>"

definition member_sig :: tar_header where
  "member_sig = \<lparr>hdr_Name = ''syncthing-linux-amd64-v1.2.0/release.sig'', hdr_Size = 13,
                 hdr_Data = (sig_good, None)\<rparr>"

definition member_readme :: tar_header where
  "member_readme = \<lparr>hdr_Name = ''syncthing-linux-amd64-v1.2.0/README.txt'', hdr_Size = 2,
                    hdr_Data = (''hi'', None)\<rparr>"

definition env_tar :: "tar_next list \<Rightarrow> env" where
  "env_tar members = env0\<lparr>
     http_Do := (\<lambda>url hs. Inr \<lparr>StatusCode = 200, Body = (''tgz'', None)\<rparr>),
     gzip_tar_NewReader := (\<lambda>r. Inr members)\<rparr>"

definition zip_member :: "tar_header \<Rightarrow> zip_file" where
  "zip_member h = \<lparr>file_Name = hdr_Name h, file_UncompressedSize64 = nat (hdr_Size h),
                   file_Open = Inr (hdr_Data h)\<rparr>"

definition env_zip :: "zip_file list \<Rightarrow> env" where
  "env_zip files = env0\<lparr>
     GOOS := ''windows'',
     http_Do := (\<lambda>url hs. Inr \<lparr>StatusCode = 200, Body = (''zip'', None)\<rparr>),
     zip_NewReader := (\<lambda>b. Inr files)\<rparr>"

text \<open>A system that refuses to rename the running binary.\<close>

definition deny_backup :: "filesystem \<Rightarrow> osop \<Rightarrow> error option" where
  "deny_backup fs op =
     (if op = OpRename ''/opt/st/syncthing'' ''/opt/st/syncthing.old''
      then Some (ErrLibrary ''permission denied'') else None)"

definition env_denied :: env where
  "env_denied =
     (env_tar [TarHdr member_readme, TarHdr member_bin, TarHdr member_sig])\<lparr>os_fail := deny_backup\<rparr>"

text \<open>An environment whose metadata request is answered with a status and a body.\<close>

definition env_http :: "nat \<Rightarrow> bytes \<Rightarrow> env" where
  "env_http status body =
     env0\<lparr>http_Get := (\<lambda>url. Inr \<lparr>StatusCode = status, Body = (body, None)\<rparr>)\<rparr>"

section \<open>Release selection\<close>

lemma SelectLatestRelease_loop_Inr:
  "SelectLatestRelease_loop E beta xs = Inr r \<Longrightarrow>
   \<exists>ys zs. xs = ys @ r # zs \<and>
     (\<forall>y \<in> set ys. \<not> ((Prerelease y \<longrightarrow> beta) \<and> SelectLatestRelease_assets E y (Assets y))) \<and>
     (Prerelease r \<longrightarrow> beta) \<and> SelectLatestRelease_assets E r (Assets r)"
proof (induction xs)
  case Nil
  then show ?case by simp
next
  case (Cons x xs)
  show ?case
  proof (cases "(Prerelease x \<longrightarrow> beta) \<and> SelectLatestRelease_assets E x (Assets x)")
    case True
    with Cons.prems have "r = x" by (auto split: if_splits)
    with True show ?thesis by (intro exI[of _ "[]"] exI[of _ xs]) simp
  next
    case False
    with Cons.prems have "SelectLatestRelease_loop E beta xs = Inr r" by (auto split: if_splits)
    from Cons.IH[OF this] obtain ys zs where
      h: "xs = ys @ r # zs"
         "\<forall>y \<in> set ys. \<not> ((Prerelease y \<longrightarrow> beta) \<and> SelectLatestRelease_assets E y (Assets y))"
         "(Prerelease r \<longrightarrow> beta) \<and> SelectLatestRelease_assets E r (Assets r)"
      by blast
    with False show ?thesis by (intro exI[of _ "x # ys"] exI[of _ zs]) auto
  qed
qed

lemma SelectLatestRelease_loop_Inl:
  "SelectLatestRelease_loop E beta xs = Inl e \<Longrightarrow>
   e = ErrNoReleaseDownload \<and>
   (\<forall>y \<in> set xs. \<not> ((Prerelease y \<longrightarrow> beta) \<and> SelectLatestRelease_assets E y (Assets y)))"
  by (induction xs) (auto split: if_splits)

lemma SelectLatestRelease_assets_iff:
  "SelectLatestRelease_assets E rel as =
   (\<exists>asset \<in> set as. strings_HasPrefix (path_Base (Name asset)) (releaseName E (Tag rel)))"
  by (induction as) (auto simp: Let_def)

lemma SelectLatestRelease_loop_first:
  assumes s: "sorted_wrt (\<lambda>a b. \<not> SortByRelease_Less E b a) xs"
    and r: "SelectLatestRelease_loop E (strings_Contains v ''-'') xs = Inr r"
  shows "r \<in> set xs \<and> eligible v r \<and> has_matching_asset E r \<and>
         (\<forall>r' \<in> set xs. r' \<noteq> r \<and> eligible v r' \<and> has_matching_asset E r'
            \<longrightarrow> CompareVersions E (Tag r') (Tag r) \<le> 0)"
proof -
  from SelectLatestRelease_loop_Inr[OF r] obtain ys zs where
    h: "xs = ys @ r # zs"
       "\<forall>y \<in> set ys. \<not> (eligible v y \<and> has_matching_asset E y)"
       "eligible v r" "has_matching_asset E r"
    unfolding eligible_def has_matching_asset_def SelectLatestRelease_assets_iff by blast
  from s h(1) have "\<forall>z \<in> set zs. \<not> SortByRelease_Less E z r"
    by (simp add: sorted_wrt_append)
  then have z: "\<forall>z \<in> set zs. CompareVersions E (Tag z) (Tag r) \<le> 0"
    by (simp add: SortByRelease_Less_def not_less)
  show ?thesis using h z by auto
qed

text \<open>
  C3. When \<open>sort.Sort\<close> has sorted the slice, \<open>SelectLatestRelease\<close> fails with
  \<open>ErrNoVersionToSelect\<close> exactly for the empty slice; it fails with
  \<open>ErrNoReleaseDownload\<close> exactly when the slice is not empty and no eligible release has
  a matching asset; and a release it returns is a release of the slice that is eligible
  and has a matching asset, while no other eligible release with a matching asset has a
  tag that compares greater. It fails with no other error.
\<close>

theorem SelectLatestRelease_highest:
  assumes "sort_Sort_contract E rels"
  shows "(fst (SelectLatestRelease E version rels) = Inl ErrNoVersionToSelect \<longleftrightarrow> rels = []) \<and>
         (fst (SelectLatestRelease E version rels) = Inl ErrNoReleaseDownload \<longleftrightarrow>
            rels \<noteq> [] \<and> \<not> (\<exists>r \<in> set rels. eligible version r \<and> has_matching_asset E r)) \<and>
         (\<forall>r. fst (SelectLatestRelease E version rels) = Inr r \<longrightarrow>
            r \<in> set rels \<and> eligible version r \<and> has_matching_asset E r \<and>
            (\<forall>r' \<in> set rels. r' \<noteq> r \<and> eligible version r' \<and> has_matching_asset E r'
               \<longrightarrow> CompareVersions E (Tag r') (Tag r) \<le> 0)) \<and>
         (\<forall>e. fst (SelectLatestRelease E version rels) = Inl e \<longrightarrow>
            e = ErrNoVersionToSelect \<or> e = ErrNoReleaseDownload)"
proof -
  define s where "s = sort_Sort E (SortByRelease_Less E) rels"
  define beta where "beta = strings_Contains version ''-''"
  from assms have perm: "set s = set rels"
    and srt: "sorted_wrt (\<lambda>a b. \<not> SortByRelease_Less E b a) s"
    unfolding sort_Sort_contract_def s_def by (auto dest: mset_eq_setD)
  have res: "rels \<noteq> [] \<Longrightarrow>
      fst (SelectLatestRelease E version rels) = SelectLatestRelease_loop E beta s"
    by (simp add: SelectLatestRelease_def s_def beta_def Let_def)
  have emp: "rels = [] \<Longrightarrow> fst (SelectLatestRelease E version rels) = Inl ErrNoVersionToSelect"
    by (simp add: SelectLatestRelease_def)
  have inl: "\<And>e. SelectLatestRelease_loop E beta s = Inl e \<Longrightarrow>
      e = ErrNoReleaseDownload \<and>
      \<not> (\<exists>r \<in> set rels. eligible version r \<and> has_matching_asset E r)"
    using SelectLatestRelease_loop_Inl[of E beta s] perm
    unfolding eligible_def has_matching_asset_def SelectLatestRelease_assets_iff beta_def
    by blast
  have inr: "\<And>r. SelectLatestRelease_loop E beta s = Inr r \<Longrightarrow>
      r \<in> set rels \<and> eligible version r \<and> has_matching_asset E r \<and>
      (\<forall>r' \<in> set rels. r' \<noteq> r \<and> eligible version r' \<and> has_matching_asset E r'
         \<longrightarrow> CompareVersions E (Tag r') (Tag r) \<le> 0)"
    using SelectLatestRelease_loop_first[OF srt, of version] perm unfolding beta_def by simp
  show ?thesis
  proof (cases "rels = []")
    case True
    then show ?thesis using emp by simp
  next
    case False
    note r = res[OF False]
    show ?thesis
    proof (cases "SelectLatestRelease_loop E beta s")
      case (Inl e)
      with inl[OF Inl] r False show ?thesis by simp
    next
      case (Inr x)
      with inr[OF Inr] r False show ?thesis by auto
    qed
  qed
qed

theorem SelectLatestRelease_highest_witness:
  "sort_Sort_contract env0 rels_w \<and>
   fst (SelectLatestRelease env0 ''v1.1.0'' rels_w) = Inr rel_120 \<and>
   rel_120 \<in> set rels_w \<and> eligible ''v1.1.0'' rel_120 \<and> has_matching_asset env0 rel_120 \<and>
   rel_110 \<in> set rels_w \<and> rel_110 \<noteq> rel_120 \<and> eligible ''v1.1.0'' rel_110 \<and>
   has_matching_asset env0 rel_110 \<and>
   CompareVersions env0 (Tag rel_110) (Tag rel_120) \<le> 0"
proof -
  have c: "sort_Sort_contract env0 rels_w" by code_simp
  have v: "fst (SelectLatestRelease env0 ''v1.1.0'' rels_w) = Inr rel_120" by code_simp
  have m: "rel_110 \<in> set rels_w" "rel_110 \<noteq> rel_120" "eligible ''v1.1.0'' rel_110"
    "has_matching_asset env0 rel_110" by code_simp+
  from SelectLatestRelease_highest[OF c, of "''v1.1.0''"] v
  have k: "rel_120 \<in> set rels_w \<and> eligible ''v1.1.0'' rel_120 \<and> has_matching_asset env0 rel_120 \<and>
            (\<forall>r' \<in> set rels_w. r' \<noteq> rel_120 \<and> eligible ''v1.1.0'' r' \<and> has_matching_asset env0 r'
               \<longrightarrow> CompareVersions env0 (Tag r') (Tag rel_120) \<le> 0)"
    by blast
  with m have "CompareVersions env0 (Tag rel_110) (Tag rel_120) \<le> 0" by blast
  with c v m k show ?thesis by blast
qed

text \<open>
  C5, as stated, fails. The environment \<open>env0\<close> sorts as the library does. Of thirteen
  releases the first and the seventh carry the same tag. \<open>choosePivot\<close> takes the seventh
  for the pivot, \<open>partition\<close> swaps it to the front and leaves the first release, whose
  tag compares equal, on the right of it. So the seventh release is scanned before the
  first and is the release returned, although the first is eligible and has a matching
  asset too; a sort that keeps the input order of equal tags returns the first.
\<close>

theorem SelectLatestRelease_not_stable:
  "sort_Sort_contract env0 rels_cx \<and> length rels_cx = 13 \<and>
   rels_cx ! 0 = rel_A \<and> rels_cx ! 6 = rel_A' \<and>
   CompareVersions env0 (Tag rel_A) (Tag rel_A') = 0 \<and>
   eligible ''v0.9.0'' rel_A \<and> has_matching_asset env0 rel_A \<and>
   SelectLatestRelease env0 ''v0.9.0'' rels_cx =
     (Inr rel_A',
      [rel_rc ''v1.1.0-rc.5'', rel_rc ''v1.1.0-rc.4'', rel_rc ''v1.1.0-rc.3'',
       rel_rc ''v1.1.0-rc.2'', rel_rc ''v1.1.0-rc.1'', rel_A', rel_A,
       rel_old ''v0.9.0'', rel_old ''v0.8.0'', rel_old ''v0.7.0'',
       rel_old ''v0.6.0'', rel_old ''v0.5.0'', rel_old ''v0.4.0'']) \<and>
   fst (SelectLatestRelease (env0\<lparr>sort_Sort := insertionSort\<rparr>) ''v0.9.0'' rels_cx) = Inr rel_A"
  by code_simp

text \<open>
  C5, amended. \<open>SelectLatestRelease\<close> scans the releases in the order \<open>sort.Sort\<close> leaves
  them in: a rearrangement of the input in which no release is scanned after one whose
  tag compares smaller. Nothing is promised about releases whose tags compare equal.
\<close>

theorem SelectLatestRelease_scan_order:
  assumes "sort_Sort_contract E rels" and "rels \<noteq> []"
  shows "\<exists>s. mset s = mset rels \<and>
           SelectLatestRelease E version rels =
             (SelectLatestRelease_loop E (strings_Contains version ''-'') s, s) \<and>
           (\<forall>i j. i < j \<and> j < length s \<longrightarrow>
              CompareVersions E (Tag (s ! j)) (Tag (s ! i)) \<le> 0)"
proof -
  define s where "s = sort_Sort E (SortByRelease_Less E) rels"
  from assms(1) have m: "mset s = mset rels"
    and srt: "sorted_wrt (\<lambda>a b. \<not> SortByRelease_Less E b a) s"
    unfolding sort_Sort_contract_def s_def by auto
  have r: "SelectLatestRelease E version rels =
             (SelectLatestRelease_loop E (strings_Contains version ''-'') s, s)"
    using assms(2) by (simp add: SelectLatestRelease_def s_def Let_def)
  have o: "\<forall>i j. i < j \<and> j < length s \<longrightarrow> CompareVersions E (Tag (s ! j)) (Tag (s ! i)) \<le> 0"
    using srt by (auto simp: sorted_wrt_iff_nth_less SortByRelease_Less_def not_less)
  from m r o show ?thesis by blast
qed

theorem SelectLatestRelease_scan_order_witness:
  "sort_Sort_contract env0 rels_cx \<and> rels_cx \<noteq> [] \<and>
   (\<exists>s. mset s = mset rels_cx \<and>
      SelectLatestRelease env0 ''v0.9.0'' rels_cx =
        (SelectLatestRelease_loop env0 (strings_Contains ''v0.9.0'' ''-'') s, s) \<and>
      CompareVersions env0 (Tag (s ! 12)) (Tag (s ! 0)) \<le> 0)"
proof -
  have c: "sort_Sort_contract env0 rels_cx" by code_simp
  have n: "rels_cx \<noteq> []" by code_simp
  from SelectLatestRelease_scan_order[OF c n, of "''v0.9.0''"] obtain s where
    s: "mset s = mset rels_cx"
       "SelectLatestRelease env0 ''v0.9.0'' rels_cx =
          (SelectLatestRelease_loop env0 (strings_Contains ''v0.9.0'' ''-'') s, s)"
       "\<forall>i j. i < j \<and> j < length s \<longrightarrow> CompareVersions env0 (Tag (s ! j)) (Tag (s ! i)) \<le> 0"
    by blast
  from s(1) have "length s = length rels_cx" by (metis size_mset)
  then have "length s = 13" by (simp add: rels_cx_def)
  with s(3) have "CompareVersions env0 (Tag (s ! 12)) (Tag (s ! 0)) \<le> 0" by simp
  with c n s show ?thesis by blast
qed

text \<open>
  C10. After every call of \<open>SelectLatestRelease\<close>, also a failing one, the caller's slice
  holds the same releases in descending order of their tags: it is what \<open>sort.Sort\<close> made
  of it (when it is not empty).
\<close>

theorem SelectLatestRelease_sorts_in_place:
  assumes "sort_Sort_contract E rels"
  shows "mset (snd (SelectLatestRelease E version rels)) = mset rels \<and>
         sorted_wrt (\<lambda>a b. CompareVersions E (Tag b) (Tag a) \<le> 0)
           (snd (SelectLatestRelease E version rels)) \<and>
         (rels \<noteq> [] \<longrightarrow>
            snd (SelectLatestRelease E version rels) = sort_Sort E (SortByRelease_Less E) rels)"
proof (cases "rels = []")
  case True
  then show ?thesis by (simp add: SelectLatestRelease_def)
next
  case False
  then have r: "snd (SelectLatestRelease E version rels) = sort_Sort E (SortByRelease_Less E) rels"
    by (simp add: SelectLatestRelease_def Let_def)
  have e: "(\<lambda>a b. \<not> SortByRelease_Less E b a) = (\<lambda>a b. CompareVersions E (Tag b) (Tag a) \<le> 0)"
    by (auto simp: SortByRelease_Less_def fun_eq_iff)
  from assms show ?thesis unfolding r sort_Sort_contract_def e by simp
qed

theorem SelectLatestRelease_sorts_in_place_witness:
  "sort_Sort_contract env0 rels_win \<and>
   fst (SelectLatestRelease env0 ''v1.0.0'' rels_win) = Inl ErrNoReleaseDownload \<and>
   snd (SelectLatestRelease env0 ''v1.0.0'' rels_win) \<noteq> rels_win \<and>
   mset (snd (SelectLatestRelease env0 ''v1.0.0'' rels_win)) = mset rels_win \<and>
   sorted_wrt (\<lambda>a b. CompareVersions env0 (Tag b) (Tag a) \<le> 0)
     (snd (SelectLatestRelease env0 ''v1.0.0'' rels_win))"
proof -
  have c: "sort_Sort_contract env0 rels_win" by code_simp
  have v: "fst (SelectLatestRelease env0 ''v1.0.0'' rels_win) = Inl ErrNoReleaseDownload"
    "snd (SelectLatestRelease env0 ''v1.0.0'' rels_win) \<noteq> rels_win" by code_simp+
  from SelectLatestRelease_sorts_in_place[OF c, of "''v1.0.0''"] c v show ?thesis by blast
qed

section \<open>The sort of the concrete environment\<close>

text \<open>
  The sort of \<open>env0\<close> meets the contract of \<open>sort.Sort\<close> on every slice: it rearranges
  the slice, and under the byte-wise comparator the result is in descending order.
\<close>

lemma mset_insertionSort_insert: "mset (insertionSort_insert lt x r) = add_mset x (mset r)"
  by (induction r) auto

lemma set_insertionSort_insert: "set (insertionSort_insert lt x r) = insert x (set r)"
  by (induction r) auto

lemma mset_insertionSort_foldl:
  "mset (foldl (\<lambda>r x. insertionSort_insert lt x r) acc xs) = mset acc + mset xs"
  by (induction xs arbitrary: acc) (auto simp: mset_insertionSort_insert)

lemma mset_insertionSort: "mset (insertionSort lt xs) = mset xs"
  by (simp add: insertionSort_def mset_insertionSort_foldl)

lemma sorted_insertionSort_insert:
  assumes asym: "\<And>a b. lt a b \<Longrightarrow> \<not> lt b a"
    and negtrans: "\<And>a b c. \<not> lt a b \<Longrightarrow> \<not> lt b c \<Longrightarrow> \<not> lt a c"
  shows "sorted_wrt (\<lambda>a b. \<not> lt a b) r \<Longrightarrow>
         sorted_wrt (\<lambda>a b. \<not> lt a b) (insertionSort_insert lt x r)"
proof (induction r)
  case Nil
  then show ?case by simp
next
  case (Cons y r)
  show ?case
  proof (cases "lt x y")
    case True
    with Cons asym[OF True] show ?thesis by (auto simp: set_insertionSort_insert)
  next
    case False
    with Cons.prems negtrans[OF False] show ?thesis by auto
  qed
qed

lemma sorted_insertionSort:
  assumes asym: "\<And>a b. lt a b \<Longrightarrow> \<not> lt b a"
    and negtrans: "\<And>a b c. \<not> lt a b \<Longrightarrow> \<not> lt b c \<Longrightarrow> \<not> lt a c"
  shows "sorted_wrt (\<lambda>a b. \<not> lt b a) (insertionSort lt xs)"
proof -
  have "sorted_wrt (\<lambda>a b. \<not> lt a b) acc \<Longrightarrow>
        sorted_wrt (\<lambda>a b. \<not> lt a b) (foldl (\<lambda>r x. insertionSort_insert lt x r) acc xs)" for acc
  proof (induction xs arbitrary: acc)
    case Nil
    then show ?case by simp
  next
    case (Cons x xs)
    from sorted_insertionSort_insert[of lt acc x, OF asym negtrans Cons.prems]
    show ?case by (simp add: Cons.IH)
  qed
  from this[of "[]"] show ?thesis by (simp add: insertionSort_def sorted_wrt_rev)
qed

lemma compare_bytes_Cons:
  "compare_bytes (x # xs) (y # ys) =
     (if (of_char x :: nat) < of_char y then - 1
      else if (of_char y :: nat) < of_char x then 1 else compare_bytes xs ys)"
  by simp

lemma compare_bytes_asym: "compare_bytes a b > 0 \<Longrightarrow> \<not> compare_bytes b a > 0"
proof (induction a arbitrary: b)
  case Nil
  then show ?case by (cases b) simp_all
next
  case (Cons x xs)
  show ?case
  proof (cases b)
    case Nil
    then show ?thesis by simp
  next
    case (Cons y ys)
    consider "(of_char x :: nat) < of_char y" | "(of_char y :: nat) < of_char x"
      | "(of_char x :: nat) = of_char y" by linarith
    then show ?thesis
    proof cases
      case 1
      with Cons Cons.prems show ?thesis by simp
    next
      case 2
      with Cons show ?thesis by simp
    next
      case 3
      with Cons Cons.prems Cons.IH[of ys] show ?thesis by simp
    qed
  qed
qed

lemma compare_bytes_negtrans:
  "\<not> compare_bytes a b > 0 \<Longrightarrow> \<not> compare_bytes b c > 0 \<Longrightarrow> \<not> compare_bytes a c > 0"
proof (induction a arbitrary: b c)
  case Nil
  then show ?case by (cases c) simp_all
next
  case (Cons x xs)
  show ?case
  proof (cases b)
    case Nil
    with Cons.prems show ?thesis by simp
  next
    case b: (Cons y ys)
    show ?thesis
    proof (cases c)
      case Nil
      with b Cons.prems show ?thesis by simp
    next
      case c: (Cons z zs)
      from Cons.prems(1) b have xy: "(of_char x :: nat) \<le> of_char y"
        by (simp split: if_splits)
      from Cons.prems(2) b c have yz: "(of_char y :: nat) \<le> of_char z"
        by (simp split: if_splits)
      show ?thesis
      proof (cases "(of_char x :: nat) < of_char z")
        case True
        with c show ?thesis by simp
      next
        case False
        with xy yz have e: "(of_char x :: nat) = of_char y" "(of_char y :: nat) = of_char z" by linarith+
        with Cons.prems b c have "\<not> compare_bytes xs ys > 0" "\<not> compare_bytes ys zs > 0"
          by simp_all
        from Cons.IH[OF this] e c show ?thesis by simp
      qed
    qed
  qed
qed

lemma partition_up_spec:
  "i \<le> e \<Longrightarrow>
   i \<le> partition_up lt xs a i e \<and> partition_up lt xs a i e \<le> e \<and>
   (\<forall>k. i \<le> k \<and> k < partition_up lt xs a i e \<longrightarrow> lt (xs ! k) (xs ! a)) \<and>
   (partition_up lt xs a i e < e \<longrightarrow> \<not> lt (xs ! partition_up lt xs a i e) (xs ! a))"
proof (induction lt xs a i e rule: partition_up.induct)
  case (1 lt xs a i e)
  show ?case
  proof (cases "i < e \<and> lt (xs ! i) (xs ! a)")
    case True
    then have eq: "partition_up lt xs a i e = partition_up lt xs a (i + 1) e"
      by (subst partition_up.simps) simp
    from True have le: "i + 1 \<le> e" by simp
    note ih = 1(1)[OF True le]
    have "\<forall>k. i \<le> k \<and> k < partition_up lt xs a (i + 1) e \<longrightarrow> lt (xs ! k) (xs ! a)"
    proof (intro allI impI)
      fix k assume k: "i \<le> k \<and> k < partition_up lt xs a (i + 1) e"
      show "lt (xs ! k) (xs ! a)"
      proof (cases "k = i")
        case True
        with \<open>i < e \<and> lt (xs ! i) (xs ! a)\<close> show ?thesis by simp
      next
        case False
        with k have "i + 1 \<le> k" by simp
        with k ih show ?thesis by blast
      qed
    qed
    with ih show ?thesis unfolding eq by simp
  next
    case False
    then have eq: "partition_up lt xs a i e = i" by (subst partition_up.simps) auto
    from False 1(2) show ?thesis unfolding eq by auto
  qed
qed

lemma partition_down_spec:
  "i \<le> e \<Longrightarrow>
   i \<le> partition_down lt xs a i e \<and> partition_down lt xs a i e \<le> e \<and>
   (\<forall>k. partition_down lt xs a i e \<le> k \<and> k < e \<longrightarrow> \<not> lt (xs ! k) (xs ! a)) \<and>
   (i < partition_down lt xs a i e \<longrightarrow> lt (xs ! (partition_down lt xs a i e - 1)) (xs ! a))"
proof (induction lt xs a i e rule: partition_down.induct)
  case (1 lt xs a i e)
  show ?case
  proof (cases "i < e \<and> \<not> lt (xs ! (e - 1)) (xs ! a)")
    case True
    then have eq: "partition_down lt xs a i e = partition_down lt xs a i (e - 1)"
      by (subst partition_down.simps) simp
    from True have le: "i \<le> e - 1" by auto
    note ih = 1(1)[OF True le]
    have "\<forall>k. partition_down lt xs a i (e - 1) \<le> k \<and> k < e \<longrightarrow> \<not> lt (xs ! k) (xs ! a)"
    proof (intro allI impI)
      fix k assume k: "partition_down lt xs a i (e - 1) \<le> k \<and> k < e"
      show "\<not> lt (xs ! k) (xs ! a)"
      proof (cases "k = e - 1")
        case True
        with \<open>i < e \<and> \<not> lt (xs ! (e - 1)) (xs ! a)\<close> show ?thesis by simp
      next
        case False
        with k have "k < e - 1" by auto
        with k ih show ?thesis by blast
      qed
    qed
    with ih True show ?thesis unfolding eq by auto
  next
    case False
    then have eq: "partition_down lt xs a i e = e" by (subst partition_down.simps) auto
    from False 1(2) show ?thesis unfolding eq by auto
  qed
qed

lemma slice_Swap_props:
  assumes "i < length xs" "j < length xs"
  shows "mset (slice_Swap xs i j) = mset xs" "length (slice_Swap xs i j) = length xs"
    "slice_Swap xs i j ! i = xs ! j" "slice_Swap xs i j ! j = xs ! i"
    "\<And>k. k \<noteq> i \<Longrightarrow> k \<noteq> j \<Longrightarrow> slice_Swap xs i j ! k = xs ! k"
  using assms by (auto simp: slice_Swap_def mset_swap nth_list_update)

lemma partition_loop_post:
  assumes "a < i" "i \<le> e" "e \<le> length xs"
    and "\<forall>k. a < k \<and> k < i \<longrightarrow> lt (xs ! k) (xs ! a)"
    and "\<forall>k. e \<le> k \<and> k < length xs \<longrightarrow> \<not> lt (xs ! k) (xs ! a)"
    and "partition_loop lt xs a i e = (ys, mid)"
  shows "mset ys = mset xs \<and> length ys = length xs \<and> a \<le> mid \<and> mid < length xs \<and>
         (\<forall>k. a \<le> k \<and> k < mid \<longrightarrow> lt (ys ! k) (ys ! mid)) \<and>
         (\<forall>k. mid < k \<and> k < length xs \<longrightarrow> \<not> lt (ys ! k) (ys ! mid))"
  using assms
proof (induction lt xs a i e arbitrary: ys mid rule: partition_loop.induct)
  case (1 lt xs a i e)
  define i' where "i' = partition_up lt xs a i e"
  define e' where "e' = partition_down lt xs a i' e"
  from partition_up_spec[OF 1(3), of lt xs a]
  have u: "i \<le> i'" "i' \<le> e" "\<forall>k. i \<le> k \<and> k < i' \<longrightarrow> lt (xs ! k) (xs ! a)"
    "i' < e \<longrightarrow> \<not> lt (xs ! i') (xs ! a)" unfolding i'_def by blast+
  from partition_down_spec[OF u(2), of lt xs a]
  have d: "i' \<le> e'" "e' \<le> e" "\<forall>k. e' \<le> k \<and> k < e \<longrightarrow> \<not> lt (xs ! k) (xs ! a)"
    "i' < e' \<longrightarrow> lt (xs ! (e' - 1)) (xs ! a)" unfolding e'_def by blast+
  have left: "\<forall>k. a < k \<and> k < i' \<longrightarrow> lt (xs ! k) (xs ! a)"
    using 1(5) u(3) by (metis not_le_imp_less)
  have right: "\<forall>k. e' \<le> k \<and> k < length xs \<longrightarrow> \<not> lt (xs ! k) (xs ! a)"
    using 1(6) d(3) by (metis not_le_imp_less)
  show ?case
  proof (cases "e' \<le> i'")
    case True
    with d(1) have ee: "e' = i'" by simp
    from 1(7) True have r: "ys = slice_Swap xs (e' - 1) a" "mid = e' - 1"
      by (subst (asm) partition_loop.simps, simp add: Let_def i'_def[symmetric] e'_def[symmetric])+
    have b: "e' - 1 < length xs" "a < length xs" "a \<le> e' - 1"
      using 1(2,3,4) u(1) d(2) ee by simp_all
    note sw = slice_Swap_props[OF b(1,2)]
    have p: "ys ! mid = xs ! a" unfolding r using sw(3) by simp
    have l: "\<forall>k. a \<le> k \<and> k < mid \<longrightarrow> lt (ys ! k) (ys ! mid)"
    proof (intro allI impI)
      fix k assume k: "a \<le> k \<and> k < mid"
      show "lt (ys ! k) (ys ! mid)"
      proof (cases "k = a")
        case True
        with k have "a < e' - 1" unfolding r by simp
        then have "lt (xs ! (e' - 1)) (xs ! a)" using left ee by simp
        with True sw(4) p show ?thesis unfolding r by simp
      next
        case False
        with k have k2: "a < k" "k < e' - 1" unfolding r by auto
        then have "ys ! k = xs ! k" unfolding r using sw(5)[of k] by simp
        moreover from k2 ee left have "lt (xs ! k) (xs ! a)" by simp
        ultimately show ?thesis using p by simp
      qed
    qed
    have g: "\<forall>k. mid < k \<and> k < length xs \<longrightarrow> \<not> lt (ys ! k) (ys ! mid)"
    proof (intro allI impI)
      fix k assume k: "mid < k \<and> k < length xs"
      then have k2: "e' \<le> k" "k \<noteq> a" "k \<noteq> e' - 1" using b(3) unfolding r by auto
      then have "ys ! k = xs ! k" unfolding r using sw(5)[of k] by simp
      with right k k2 p show "\<not> lt (ys ! k) (ys ! mid)" by simp
    qed
    from sw(1,2) b l g show ?thesis unfolding r by simp
  next
    case False
    then have lt': "i' < e'" by simp
    with u(4) d(2,4) have x: "\<not> lt (xs ! i') (xs ! a)" "lt (xs ! (e' - 1)) (xs ! a)" by auto
    then have ne: "i' \<noteq> e' - 1" by auto
    with lt' have lt2: "i' < e' - 1" by simp
    define xs' where "xs' = slice_Swap xs i' (e' - 1)"
    from 1(7) False have r: "partition_loop lt xs' a (i' + 1) (e' - 1) = (ys, mid)"
      by (subst (asm) partition_loop.simps)
         (simp add: Let_def i'_def[symmetric] e'_def[symmetric] xs'_def)
    have b: "i' < length xs" "e' - 1 < length xs" using lt2 d(2) 1(4) by simp_all
    note sw = slice_Swap_props[OF b, folded xs'_def]
    have ai: "a < i'" using 1(2) u(1) by simp
    then have pa: "xs' ! a = xs ! a" using sw(5)[of a] lt2 by simp
    have c1: "a < i' + 1" "i' + 1 \<le> e' - 1" "e' - 1 \<le> length xs'"
      using ai lt2 b sw(2) by simp_all
    have c2: "\<forall>k. a < k \<and> k < i' + 1 \<longrightarrow> lt (xs' ! k) (xs' ! a)"
    proof (intro allI impI)
      fix k assume k: "a < k \<and> k < i' + 1"
      show "lt (xs' ! k) (xs' ! a)"
      proof (cases "k = i'")
        case True
        with sw(3) x(2) pa show ?thesis by simp
      next
        case False
        with k lt2 have "k < i'" "k \<noteq> e' - 1" by auto
        with k left sw(5)[of k] pa show ?thesis by simp
      qed
    qed
    have c3: "\<forall>k. e' - 1 \<le> k \<and> k < length xs' \<longrightarrow> \<not> lt (xs' ! k) (xs' ! a)"
    proof (intro allI impI)
      fix k assume k: "e' - 1 \<le> k \<and> k < length xs'"
      show "\<not> lt (xs' ! k) (xs' ! a)"
      proof (cases "k = e' - 1")
        case True
        with sw(4) x(1) pa show ?thesis by simp
      next
        case False
        with k lt2 have "e' \<le> k" "k \<noteq> i'" by auto
        with k right sw(5)[of k] sw(2) pa False show ?thesis by simp
      qed
    qed
    have "mset ys = mset xs' \<and> length ys = length xs' \<and> a \<le> mid \<and> mid < length xs' \<and>
         (\<forall>k. a \<le> k \<and> k < mid \<longrightarrow> lt (ys ! k) (ys ! mid)) \<and>
         (\<forall>k. mid < k \<and> k < length xs' \<longrightarrow> \<not> lt (ys ! k) (ys ! mid))"
      using 1(1)[OF i'_def e'_def False] c1 c2 c3 r unfolding xs'_def by blast
    with sw(1,2) show ?thesis by simp
  qed
qed

lemma median_in: "fst (median lt xs a b c s) \<in> {a, b, c}"
  by (simp add: median_def order2_def)

lemma choosePivot_bound: "0 < n \<Longrightarrow> fst (choosePivot lt xs 0 n) < n"
proof -
  assume n: "0 < n"
  have b: "n div 4 * 1 < n" "n div 4 * 2 < n" "n div 4 * 3 < n" using n by simp_all
  show ?thesis
  proof (cases "n \<ge> 8")
    case True
    with median_in[of lt xs "n div 4 * 1" "n div 4 * 2" "n div 4 * 3" 0] b
    show ?thesis by (auto simp: choosePivot_def Let_def)
  next
    case False
    with b show ?thesis by (simp add: choosePivot_def Let_def)
  qed
qed

lemma partition_post:
  assumes p: "pivot < length xs" and r: "partition_slice lt xs 0 (length xs) pivot = (ys, mid)"
  shows "mset ys = mset xs \<and> mid < length ys \<and>
         (\<forall>k. k < mid \<longrightarrow> lt (ys ! k) (ys ! mid)) \<and>
         (\<forall>k. mid < k \<and> k < length ys \<longrightarrow> \<not> lt (ys ! k) (ys ! mid))"
proof -
  define zs where "zs = slice_Swap xs 0 pivot"
  from p have z: "0 < length xs" by auto
  note sw = slice_Swap_props(1,2)[OF z p, folded zs_def]
  from r have l: "partition_loop lt zs 0 (0 + 1) (length zs) = (ys, mid)"
    by (simp add: partition_slice_def zs_def sw(2)[unfolded zs_def])
  have "mset ys = mset zs \<and> length ys = length zs \<and> 0 \<le> mid \<and> mid < length zs \<and>
         (\<forall>k. 0 \<le> k \<and> k < mid \<longrightarrow> lt (ys ! k) (ys ! mid)) \<and>
         (\<forall>k. mid < k \<and> k < length zs \<longrightarrow> \<not> lt (ys ! k) (ys ! mid))"
  proof (rule partition_loop_post[OF _ _ _ _ _ l])
    show "(0::nat) < 0 + 1" by simp
    show "0 + 1 \<le> length zs" using z sw(2) by linarith
    show "length zs \<le> length zs" by simp
    show "\<forall>k. 0 < k \<and> k < 0 + 1 \<longrightarrow> lt (zs ! k) (zs ! 0)" by simp
    show "\<forall>k. length zs \<le> k \<and> k < length zs \<longrightarrow> \<not> lt (zs ! k) (zs ! 0)" by auto
  qed
  with sw show ?thesis by simp
qed

lemma set_insertionSort: "set (insertionSort lt xs) = set xs"
  using mset_insertionSort[of lt xs] by (metis set_mset_mset)

lemma pdqsort_contract:
  assumes asym: "\<And>a b. lt a b \<Longrightarrow> \<not> lt b a"
    and negtrans: "\<And>a b c. \<not> lt a b \<Longrightarrow> \<not> lt b c \<Longrightarrow> \<not> lt a c"
  shows "mset (pdqsort lt xs) = mset xs \<and> sorted_wrt (\<lambda>a b. \<not> lt b a) (pdqsort lt xs)"
proof (cases "length xs \<le> 12")
  case True
  then show ?thesis
    using sorted_insertionSort[of lt xs, OF asym negtrans]
    by (simp add: pdqsort_def mset_insertionSort)
next
  case False
  obtain pivot swaps where cp: "choosePivot lt xs 0 (length xs) = (pivot, swaps)"
    by (cases "choosePivot lt xs 0 (length xs)")
  show ?thesis
  proof (cases "swaps = 0 \<and> partialInsertionSort lt xs")
    case True
    have tr: "transp (\<lambda>a b. \<not> lt b a)" using negtrans by (auto simp: transp_def)
    have "\<forall>i. Suc i < length xs \<longrightarrow> \<not> lt (xs ! Suc i) (xs ! i)"
    proof (intro allI impI)
      fix i assume "Suc i < length xs"
      then have "Suc i \<in> set [1 ..< length xs]" by simp
      with True show "\<not> lt (xs ! Suc i) (xs ! i)"
        unfolding partialInsertionSort_def list_all_iff by fastforce
    qed
    then have "sorted_wrt (\<lambda>a b. \<not> lt b a) xs"
      by (simp add: sorted_wrt_iff_nth_Suc_transp[OF tr])
    with True False cp show ?thesis by (simp add: pdqsort_def)
  next
    case np: False
    obtain ys mid where pt: "partition_slice lt xs 0 (length xs) pivot = (ys, mid)"
      by (cases "partition_slice lt xs 0 (length xs) pivot")
    from False have "0 < length xs" by auto
    from choosePivot_bound[OF this, of lt xs] cp have pb: "pivot < length xs" by simp
    from partition_post[OF pb pt]
    have m: "mset ys = mset xs" and ml: "mid < length ys"
      and lf: "\<forall>k. k < mid \<longrightarrow> lt (ys ! k) (ys ! mid)"
      and rt: "\<forall>k. mid < k \<and> k < length ys \<longrightarrow> \<not> lt (ys ! k) (ys ! mid)" by blast+
    define L where "L = insertionSort lt (take mid ys)"
    define R where "R = insertionSort lt (drop (mid + 1) ys)"
    have res: "pdqsort lt xs = L @ [ys ! mid] @ R"
      using False cp np pt by (auto simp: pdqsort_def L_def R_def)
    have "mset (L @ [ys ! mid] @ R) = mset (take mid ys @ ys ! mid # drop (Suc mid) ys)"
      by (simp add: L_def R_def mset_insertionSort)
    also have "\<dots> = mset ys" using id_take_nth_drop[OF ml] by simp
    finally have 1: "mset (pdqsort lt xs) = mset xs" using m res by simp
    have sL: "sorted_wrt (\<lambda>a b. \<not> lt b a) L" and sR: "sorted_wrt (\<lambda>a b. \<not> lt b a) R"
      unfolding L_def R_def
      using sorted_insertionSort[of lt "take mid ys", OF asym negtrans]
        sorted_insertionSort[of lt "drop (mid + 1) ys", OF asym negtrans] by simp_all
    have eL: "\<forall>x \<in> set L. lt x (ys ! mid)"
    proof
      fix x assume "x \<in> set L"
      then have "x \<in> set (take mid ys)" by (simp add: L_def set_insertionSort)
      then obtain k where "k < mid" "x = ys ! k" using ml
        by (auto simp: in_set_conv_nth)
      with lf show "lt x (ys ! mid)" by simp
    qed
    have eR: "\<forall>x \<in> set R. \<not> lt x (ys ! mid)"
    proof
      fix x assume "x \<in> set R"
      then have "x \<in> set (drop (mid + 1) ys)" by (simp add: R_def set_insertionSort)
      then obtain k where "k < length ys - (mid + 1)" "x = ys ! (mid + 1 + k)"
        by (auto simp: in_set_conv_nth)
      with rt show "\<not> lt x (ys ! mid)" by simp
    qed
    have c1: "\<forall>x \<in> set L. \<not> lt (ys ! mid) x" using eL asym by blast
    have c2: "\<forall>x \<in> set L. \<forall>y \<in> set R. \<not> lt y x"
    proof (intro ballI)
      fix x y assume "x \<in> set L" "y \<in> set R"
      with eR c1 have "\<not> lt y (ys ! mid)" "\<not> lt (ys ! mid) x" by blast+
      then show "\<not> lt y x" by (rule negtrans)
    qed
    have 2: "sorted_wrt (\<lambda>a b. \<not> lt b a) (L @ [ys ! mid] @ R)"
      using sL sR eR c1 c2 by (simp add: sorted_wrt_append)
    from 1 2 res show ?thesis by simp
  qed
qed

lemma pdqsort_env0_contract: "sort_Sort_contract env0 rels"
proof -
  have l: "SortByRelease_Less env0 = (\<lambda>a b. compare_bytes (Tag a) (Tag b) > 0)"
    by (simp add: SortByRelease_Less_def env0_def fun_eq_iff)
  have s: "sort_Sort env0 = pdqsort" by (simp add: env0_def)
  have "mset (pdqsort (\<lambda>a b. compare_bytes (Tag a) (Tag b) > 0) rels) = mset rels \<and>
        sorted_wrt (\<lambda>a b. \<not> compare_bytes (Tag b) (Tag a) > 0)
          (pdqsort (\<lambda>a b. compare_bytes (Tag a) (Tag b) > 0) rels)"
    by (rule pdqsort_contract) (auto dest: compare_bytes_asym compare_bytes_negtrans)
  then show ?thesis unfolding sort_Sort_contract_def l s by simp
qed

section \<open>Paths\<close>

lemma strings_Split_nonempty: "strings_Split s c \<noteq> []"
  by (induction s) (auto split: list.splits)

lemma strings_Split_length: "Suc 0 < length (strings_Split s c) \<longleftrightarrow> c \<in> set s"
proof (induction s)
  case Nil
  then show ?case by simp
next
  case (Cons x s)
  then show ?case using strings_Split_nonempty[of s c]
    by (cases "strings_Split s c") auto
qed

lemma strings_Split_no_sep: "c \<notin> set d \<Longrightarrow> strings_Split d c = [d]"
  by (induction d) auto

lemma strings_Split_append: "c \<notin> set d \<Longrightarrow> strings_Split (d @ c # r) c = d # strings_Split r c"
  by (induction d) auto

lemma after_last_slash_append:
  "CHR ''/'' \<notin> set f \<Longrightarrow> after_last_slash (d @ CHR ''/'' # f) = f"
proof -
  assume a: "CHR ''/'' \<notin> set f"
  have "takeWhile (\<lambda>c. c \<noteq> CHR ''/'') (rev f @ CHR ''/'' # rev d) =
        rev f @ takeWhile (\<lambda>c. c \<noteq> CHR ''/'') (CHR ''/'' # rev d)"
    by (rule takeWhile_append2) (use a in auto)
  then show ?thesis by (simp add: after_last_slash_def)
qed

lemma path_Split_append:
  "CHR ''/'' \<notin> set f \<Longrightarrow> path_Split (d @ CHR ''/'' # f) = (d @ ''/'', f)"
  by (simp add: path_Split_def Let_def after_last_slash_append)

lemma path_Base_append:
  "CHR ''/'' \<notin> set f \<Longrightarrow> f \<noteq> [] \<Longrightarrow> path_Base (d @ CHR ''/'' # f) = f"
proof -
  assume a: "CHR ''/'' \<notin> set f" "f \<noteq> []"
  then have "hd (rev f) \<noteq> CHR ''/''" by (metis hd_rev last_in_set)
  with a have "dropWhile (\<lambda>c. c = CHR ''/'') (rev f @ CHR ''/'' # rev d) = rev f @ CHR ''/'' # rev d"
    by (cases "rev f") auto
  with a show ?thesis by (simp add: path_Base_def Let_def after_last_slash_append)
qed

lemma path_Clean_one: "plain_name d \<Longrightarrow> path_Clean (d @ ''/'') = d"
  unfolding plain_name_def path_Clean_def
  by (cases d) (auto simp: Let_def strings_Split_append clean_step_def)

lemma path_Clean_two:
  "plain_name d1 \<Longrightarrow> plain_name d2 \<Longrightarrow> path_Clean (d1 @ ''/'' @ d2 @ ''/'') = d1 @ ''/'' @ d2"
  unfolding plain_name_def path_Clean_def
  by (cases d1) (auto simp: Let_def strings_Split_append clean_step_def)

section \<open>Extraction\<close>

lemma maxBinarySize_value: "maxBinarySize = 67108864"
  by (simp add: maxBinarySize_def)

lemma maxSignatureSize_value: "maxSignatureSize = 1024"
  by (simp add: maxSignatureSize_def)

lemma io_LimitReader_short: "length (fst r) < n \<Longrightarrow> io_LimitReader r n = r"
  by (simp add: io_LimitReader_def)

lemma writeBinary_succeeds:
  assumes "\<forall>fs'. os_fail E fs' (OpTempFile dir ''syncthing'') = None \<and>
             os_fail E fs' (OpWrite name) = None \<and> os_fail E fs' (OpClose name) = None \<and>
             os_fail E fs' (OpChmod name 493) = None"
    and "name = dir @ ''/'' @ ''syncthing'' @ itoa (nextSuffix E fs)"
    and "fs name = None"
  shows "writeBinary E fs dir (b, None) = (Inr name, fs(name \<mapsto> \<lparr>Data = b, Mode = 493\<rparr>))"
  using assms
  by (simp add: writeBinary_def ioutil_TempFile_def io_Copy_def os_Chmod_def Let_def)

lemma itoa_42: "itoa 42 = ''42''"
  by code_simp

lemma writeBinary_env0:
  assumes a: "fs (dir @ ''/syncthing42'') = None"
  shows "writeBinary env0 fs dir (b, None) =
     (Inr (dir @ ''/syncthing42''), fs(dir @ ''/syncthing42'' \<mapsto> \<lparr>Data = b, Mode = 493\<rparr>))"
proof -
  have n: "dir @ ''/syncthing42'' = dir @ ''/'' @ ''syncthing'' @ itoa (nextSuffix env0 fs)"
    by (simp add: env0_def itoa_42)
  have o: "\<forall>fs'. os_fail env0 fs' (OpTempFile dir ''syncthing'') = None \<and>
             os_fail env0 fs' (OpWrite (dir @ ''/syncthing42'')) = None \<and>
             os_fail env0 fs' (OpClose (dir @ ''/syncthing42'')) = None \<and>
             os_fail env0 fs' (OpChmod (dir @ ''/syncthing42'') 493) = None"
    by (simp add: env0_def)
  show ?thesis by (rule writeBinary_succeeds[OF o n a])
qed

text \<open>
  C4, as stated, fails: a member \<open>syncthing\<close> inside one directory of the archive is
  written to a temporary file. Its directory part is a single element, so
  \<open>strings.Split\<close> gives one piece and the test \<open>len(archiveDirs) > 1\<close> lets it pass.
\<close>

theorem archiveFileVisitor_accepts_subdirectory:
  "path_Base ''syncthing-linux-amd64-v1.2.0/syncthing'' = ''syncthing'' \<and>
   path_Dir ''syncthing-linux-amd64-v1.2.0/syncthing'' = ''syncthing-linux-amd64-v1.2.0'' \<and>
   archiveFileVisitor env0 disk0 ''/opt/st'' [] None
          ''syncthing-linux-amd64-v1.2.0/syncthing'' (''NEW'', None) =
     (None, ''/opt/st/syncthing42'', None,
      disk0(''/opt/st/syncthing42'' \<mapsto> \<lparr>Data = ''NEW'', Mode = 493\<rparr>))"
proof -
  have b: "path_Base ''syncthing-linux-amd64-v1.2.0/syncthing'' = ''syncthing''"
    and d: "path_Dir ''syncthing-linux-amd64-v1.2.0/syncthing'' = ''syncthing-linux-amd64-v1.2.0''"
    and s: "strings_Split ''syncthing-linux-amd64-v1.2.0'' (CHR ''/'') = [''syncthing-linux-amd64-v1.2.0'']"
    by code_simp+
  have w: "writeBinary env0 disk0 ''/opt/st'' (''NEW'', None) =
     (Inr ''/opt/st/syncthing42'', disk0(''/opt/st/syncthing42'' \<mapsto> \<lparr>Data = ''NEW'', Mode = 493\<rparr>))"
    using writeBinary_env0[of disk0 "''/opt/st''" "''NEW''"] by (simp add: disk0_def)
  show ?thesis
    by (simp add: archiveFileVisitor_def b d s w io_LimitReader_short maxBinarySize_value)
qed

text \<open>
  C4, amended. A member whose base name is \<open>syncthing\<close> or \<open>syncthing.exe\<close> is written to
  a temporary file exactly when the directory part of its name, as \<open>path.Dir\<close> cleans
  it, holds no slash. So the member at the top level of the archive and the member
  directly inside one directory are written; a member two directories deep is skipped,
  and the visitor then changes nothing.
\<close>

theorem archiveFileVisitor_binary_depth:
  assumes f: "f = ''syncthing'' \<or> f = ''syncthing.exe''"
    and d: "plain_name d1" "plain_name d2"
  shows "(path_Base p = f \<longrightarrow>
            archiveFileVisitor E fs dir t s p r =
              (if CHR ''/'' \<in> set (path_Dir p) then (None, t, s, fs)
               else (case writeBinary E fs dir (io_LimitReader r maxBinarySize) of
                       (Inl err, fs') \<Rightarrow> (Some err, [], s, fs')
                     | (Inr name, fs') \<Rightarrow> (None, name, s, fs')))) \<and>
         archiveFileVisitor E fs dir t s f r =
           (case writeBinary E fs dir (io_LimitReader r maxBinarySize) of
              (Inl err, fs') \<Rightarrow> (Some err, [], s, fs')
            | (Inr name, fs') \<Rightarrow> (None, name, s, fs')) \<and>
         archiveFileVisitor E fs dir t s (d1 @ ''/'' @ f) r =
           (case writeBinary E fs dir (io_LimitReader r maxBinarySize) of
              (Inl err, fs') \<Rightarrow> (Some err, [], s, fs')
            | (Inr name, fs') \<Rightarrow> (None, name, s, fs')) \<and>
         archiveFileVisitor E fs dir t s (d1 @ ''/'' @ d2 @ ''/'' @ f) r = (None, t, s, fs)"
proof -
  have gen: "\<And>q. path_Base q = f \<Longrightarrow>
      archiveFileVisitor E fs dir t s q r =
        (if CHR ''/'' \<in> set (path_Dir q) then (None, t, s, fs)
         else (case writeBinary E fs dir (io_LimitReader r maxBinarySize) of
                 (Inl err, fs') \<Rightarrow> (Some err, [], s, fs')
               | (Inr name, fs') \<Rightarrow> (None, name, s, fs')))"
    using f by (auto simp: archiveFileVisitor_def Let_def strings_Split_length)
  have nf: "CHR ''/'' \<notin> set f" "f \<noteq> []" using f by auto
  have b0: "path_Base f = f" using f by (auto simp: path_Base_def after_last_slash_def)
  have d0: "path_Dir f = ''.''" using f
    by (auto simp: path_Dir_def path_Split_def after_last_slash_def path_Clean_def)
  have b1: "path_Base (d1 @ ''/'' @ f) = f" using path_Base_append[OF nf, of d1] by simp
  have d1: "path_Dir (d1 @ ''/'' @ f) = d1"
    using path_Split_append[OF nf(1), of d1] path_Clean_one[OF d(1)] by (simp add: path_Dir_def)
  have b2: "path_Base (d1 @ ''/'' @ d2 @ ''/'' @ f) = f"
    using path_Base_append[OF nf, of "d1 @ ''/'' @ d2"] by simp
  have d2: "path_Dir (d1 @ ''/'' @ d2 @ ''/'' @ f) = d1 @ ''/'' @ d2"
    using path_Split_append[OF nf(1), of "d1 @ ''/'' @ d2"] path_Clean_two[OF d]
    by (simp add: path_Dir_def)
  have n1: "CHR ''/'' \<notin> set d1" using d(1) by (simp add: plain_name_def)
  have c0: "archiveFileVisitor E fs dir t s f r =
           (case writeBinary E fs dir (io_LimitReader r maxBinarySize) of
              (Inl err, fs') \<Rightarrow> (Some err, [], s, fs')
            | (Inr name, fs') \<Rightarrow> (None, name, s, fs'))"
    unfolding gen[OF b0] d0 by simp
  have c1: "archiveFileVisitor E fs dir t s (d1 @ ''/'' @ f) r =
           (case writeBinary E fs dir (io_LimitReader r maxBinarySize) of
              (Inl err, fs') \<Rightarrow> (Some err, [], s, fs')
            | (Inr name, fs') \<Rightarrow> (None, name, s, fs'))"
    unfolding gen[OF b1] d1 using n1 by simp
  have c2: "archiveFileVisitor E fs dir t s (d1 @ ''/'' @ d2 @ ''/'' @ f) r = (None, t, s, fs)"
    unfolding gen[OF b2] d2 by simp
  from gen c0 c1 c2 show ?thesis by blast
qed


theorem archiveFileVisitor_binary_depth_witness:
  "plain_name ''syncthing-linux-amd64-v1.2.0'' \<and> plain_name ''bin'' \<and>
   path_Base ''a/b/c/syncthing'' = ''syncthing'' \<and>
   CHR ''/'' \<in> set (path_Dir ''a/b/c/syncthing'') \<and>
   archiveFileVisitor env0 disk0 ''/opt/st'' [] None ''a/b/c/syncthing'' (''NEW'', None) =
     (None, [], None, disk0) \<and>
   archiveFileVisitor env0 disk0 ''/opt/st'' [] None
       (''syncthing-linux-amd64-v1.2.0'' @ ''/'' @ ''bin'' @ ''/'' @ ''syncthing'') (''NEW'', None) =
     (None, [], None, disk0) \<and>
   archiveFileVisitor env0 disk0 ''/opt/st'' [] None
       (''syncthing-linux-amd64-v1.2.0'' @ ''/'' @ ''syncthing'') (''NEW'', None) =
     (None, ''/opt/st/syncthing42'', None,
      disk0(''/opt/st/syncthing42'' \<mapsto> \<lparr>Data = ''NEW'', Mode = 493\<rparr>))"
proof -
  have p: "plain_name ''syncthing-linux-amd64-v1.2.0''" "plain_name ''bin''" by code_simp+
  have b: "path_Base ''a/b/c/syncthing'' = ''syncthing''"
    "CHR ''/'' \<in> set (path_Dir ''a/b/c/syncthing'')" by code_simp+
  have w: "writeBinary env0 disk0 ''/opt/st'' (io_LimitReader (''NEW'', None) maxBinarySize) =
     (Inr ''/opt/st/syncthing42'', disk0(''/opt/st/syncthing42'' \<mapsto> \<lparr>Data = ''NEW'', Mode = 493\<rparr>))"
    using writeBinary_env0[of disk0 "''/opt/st''" "''NEW''"]
    by (simp add: disk0_def io_LimitReader_short maxBinarySize_value)
  note t = archiveFileVisitor_binary_depth[OF _ p, of "''syncthing''" "''a/b/c/syncthing''"
      env0 disk0 "''/opt/st''" "[]" None "(''NEW'', None)", simplified w]
  from t b p show ?thesis by simp
qed

section \<open>Signature verification\<close>

text \<open>
  C7. \<open>verifyUpgrade\<close> fails with "no upgrade found" when the temporary name is empty
  and with "no signature found" when the signature is nil, and leaves the file system
  as it is in both cases, as it does when the file cannot be opened and when the
  signature is accepted. Only when \<open>signature.Verify\<close> returns an error does it call
  \<open>os.Remove\<close> on the temporary file, which is then gone unless the system refuses the
  removal.
\<close>

theorem verifyUpgrade_cleanup:
  "(tempName = [] \<longrightarrow>
      verifyUpgrade E fs archiveName tempName sig = (Some (Errorf ''no upgrade found''), fs)) \<and>
   (tempName \<noteq> [] \<and> sig = None \<longrightarrow>
      verifyUpgrade E fs archiveName tempName sig = (Some (Errorf ''no signature found''), fs)) \<and>
   (\<forall>sg. tempName \<noteq> [] \<and> sig = Some sg \<longrightarrow>
      (case os_Open E fs tempName of
         Inl err \<Rightarrow> verifyUpgrade E fs archiveName tempName sig = (Some err, fs)
       | Inr fd \<Rightarrow>
           (case signature_Verify E (SigningKey E) sg (archiveName @ [CHR 0x0A] @ fd) of
              None \<Rightarrow> verifyUpgrade E fs archiveName tempName sig = (None, fs)
            | Some err \<Rightarrow>
                verifyUpgrade E fs archiveName tempName sig =
                  (Some err, snd (os_Remove E fs tempName)) \<and>
                (os_fail E fs (OpRemove tempName) = None \<longrightarrow>
                   snd (verifyUpgrade E fs archiveName tempName sig) = fs(tempName := None)))))"
  by (auto simp: verifyUpgrade_def os_Remove_def os_Open_def Let_def
      split: sum.splits option.splits)

lemma os_Open_disk1: "os_Open env0 disk1 ''/opt/st/syncthing42'' = Inr ''NEW''"
  by (simp add: os_Open_def env0_def disk1_def)

theorem verifyUpgrade_cleanup_witness:
  "verifyUpgrade env0 disk1 ''a.tar.gz'' [] (Some sig_good) =
     (Some (Errorf ''no upgrade found''), disk1) \<and>
   verifyUpgrade env0 disk1 ''a.tar.gz'' ''/opt/st/syncthing42'' None =
     (Some (Errorf ''no signature found''), disk1) \<and>
   verifyUpgrade env0 disk1 ''a.tar.gz'' ''/opt/st/syncthing42'' (Some sig_good) = (None, disk1) \<and>
   verifyUpgrade env0 disk1 ''b.tar.gz'' ''/opt/st/syncthing42'' (Some sig_good) =
     (Some (ErrLibrary ''incorrect signature''), disk1(''/opt/st/syncthing42'' := None)) \<and>
   disk1 ''/opt/st/syncthing42'' \<noteq> None"
proof -
  have g: "signature_Verify env0 (SigningKey env0) sig_good (''a.tar.gz'' @ [CHR 0x0A] @ ''NEW'') = None"
    by (simp add: env0_def toy_Verify_def sig_good_def)
  have b: "signature_Verify env0 (SigningKey env0) sig_good (''b.tar.gz'' @ [CHR 0x0A] @ ''NEW'') =
      Some (ErrLibrary ''incorrect signature'')"
    by (simp add: env0_def toy_Verify_def sig_good_def)
  have r: "os_fail env0 disk1 (OpRemove ''/opt/st/syncthing42'') = None" by (simp add: env0_def)
  have e: "disk1 ''/opt/st/syncthing42'' \<noteq> None" by (simp add: disk1_def)
  have 1: "verifyUpgrade env0 disk1 ''a.tar.gz'' [] (Some sig_good) =
     (Some (Errorf ''no upgrade found''), disk1)"
    using verifyUpgrade_cleanup[where tempName="[]" and E=env0 and fs=disk1 and archiveName="''a.tar.gz''" and sig="Some sig_good"] by simp
  have 2: "verifyUpgrade env0 disk1 ''a.tar.gz'' ''/opt/st/syncthing42'' None =
     (Some (Errorf ''no signature found''), disk1)"
    using verifyUpgrade_cleanup[where tempName="''/opt/st/syncthing42''" and E=env0 and fs=disk1 and archiveName="''a.tar.gz''" and sig=None] by simp
  have 3: "verifyUpgrade env0 disk1 ''a.tar.gz'' ''/opt/st/syncthing42'' (Some sig_good) = (None, disk1)"
    using verifyUpgrade_cleanup[where tempName="''/opt/st/syncthing42''" and E=env0 and fs=disk1 and archiveName="''a.tar.gz''" and sig="Some sig_good"] g
    by (simp add: os_Open_disk1)
  have 4: "verifyUpgrade env0 disk1 ''b.tar.gz'' ''/opt/st/syncthing42'' (Some sig_good) =
     (Some (ErrLibrary ''incorrect signature''), disk1(''/opt/st/syncthing42'' := None))"
    using verifyUpgrade_cleanup[where tempName="''/opt/st/syncthing42''" and E=env0 and fs=disk1 and archiveName="''b.tar.gz''" and sig="Some sig_good"] b r e
    by (auto simp: os_Open_disk1 os_Remove_def)
  from 1 2 3 4 e show ?thesis by blast
qed

text \<open>
  C2. For a temporary file that exists and can be opened, the result of \<open>verifyUpgrade\<close>
  is the result of \<open>signature.Verify\<close> on the key \<open>SigningKey\<close>, the signature, and the
  archive name followed by one newline and the whole content of the file; the
  verification primitive matters for the outcome through this one question only.
\<close>

theorem verifyUpgrade_payload:
  assumes "tempName \<noteq> []"
    and "fs tempName = Some f"
    and "os_fail E fs (OpOpen tempName) = None"
  shows "fst (verifyUpgrade E fs archiveName tempName (Some sg)) =
           signature_Verify E (SigningKey E) sg (archiveName @ [CHR 0x0A] @ Data f) \<and>
         (\<forall>V. V (SigningKey E) sg (archiveName @ [CHR 0x0A] @ Data f) =
                signature_Verify E (SigningKey E) sg (archiveName @ [CHR 0x0A] @ Data f) \<longrightarrow>
              verifyUpgrade (E\<lparr>signature_Verify := V\<rparr>) fs archiveName tempName (Some sg) =
              verifyUpgrade E fs archiveName tempName (Some sg))"
proof -
  have o: "\<And>V. os_Open (E\<lparr>signature_Verify := V\<rparr>) fs tempName = Inr (Data f)"
    "os_Open E fs tempName = Inr (Data f)"
    using assms by (simp_all add: os_Open_def)
  have r: "\<And>V. os_Remove (E\<lparr>signature_Verify := V\<rparr>) fs tempName = os_Remove E fs tempName"
    by (simp add: os_Remove_def)
  have 1: "fst (verifyUpgrade E fs archiveName tempName (Some sg)) =
           signature_Verify E (SigningKey E) sg (archiveName @ [CHR 0x0A] @ Data f)"
    using assms(1) by (simp add: verifyUpgrade_def o split: option.splits)
  have 2: "verifyUpgrade (E\<lparr>signature_Verify := V\<rparr>) fs archiveName tempName (Some sg) =
           verifyUpgrade E fs archiveName tempName (Some sg)"
    if "V (SigningKey E) sg (archiveName @ [CHR 0x0A] @ Data f) =
        signature_Verify E (SigningKey E) sg (archiveName @ [CHR 0x0A] @ Data f)" for V
    using assms(1) that by (simp add: verifyUpgrade_def o r split: option.splits)
  from 1 2 show ?thesis by blast
qed

theorem verifyUpgrade_payload_witness:
  "''/opt/st/syncthing42'' \<noteq> [] \<and>
   disk1 ''/opt/st/syncthing42'' = Some \<lparr>Data = ''NEW'', Mode = 493\<rparr> \<and>
   os_fail env0 disk1 (OpOpen ''/opt/st/syncthing42'') = None \<and>
   fst (verifyUpgrade env0 disk1 ''a.tar.gz'' ''/opt/st/syncthing42'' (Some sig_good)) =
     toy_Verify ''K'' sig_good (''a.tar.gz'' @ [CHR 0x0A] @ ''NEW'') \<and>
   toy_Verify ''K'' sig_good (''a.tar.gz'' @ [CHR 0x0A] @ ''NEW'') = None \<and>
   toy_Verify ''K'' sig_good (''a.tar.gz'' @ ''NEW'') \<noteq> None"
proof -
  have a: "''/opt/st/syncthing42'' \<noteq> []" by simp
  have b: "disk1 ''/opt/st/syncthing42'' = Some \<lparr>Data = ''NEW'', Mode = 493\<rparr>"
    by (simp add: disk1_def)
  have c: "os_fail env0 disk1 (OpOpen ''/opt/st/syncthing42'') = None" by (simp add: env0_def)
  have t: "toy_Verify ''K'' sig_good (''a.tar.gz'' @ [CHR 0x0A] @ ''NEW'') = None"
    "toy_Verify ''K'' sig_good (''a.tar.gz'' @ ''NEW'') \<noteq> None"
    by (simp_all add: toy_Verify_def sig_good_def)
  have "fst (verifyUpgrade env0 disk1 ''a.tar.gz'' ''/opt/st/syncthing42'' (Some sig_good)) =
     toy_Verify ''K'' sig_good (''a.tar.gz'' @ [CHR 0x0A] @ ''NEW'')"
  proof -
    have k: "signature_Verify env0 = toy_Verify" "SigningKey env0 = ''K''"
      by (simp_all add: env0_def)
    from verifyUpgrade_payload[OF a b c, where archiveName="''a.tar.gz''" and sg=sig_good, THEN conjunct1]
    show ?thesis unfolding k by simp
  qed
  with a b c t show ?thesis by blast
qed

section \<open>What an extraction does to the file system\<close>

lemma itoa_last: "itoa n \<noteq> [] \<and> last (itoa n) \<in> set ''0123456789''"
proof -
  have d: "\<And>k::nat. k < 10 \<Longrightarrow> ''0123456789'' ! k \<in> set ''0123456789''"
    by (rule nth_mem) simp
  show ?thesis
  proof (cases "n < 10")
    case True
    then show ?thesis using d[of n] by (subst (1 2) itoa.simps) simp
  next
    case False
    then show ?thesis using d[of "n mod 10"] by (subst (1 2) itoa.simps) simp
  qed
qed

lemma is_temp_name_not_old: "is_temp_name dir q \<Longrightarrow> q \<noteq> b @ ''.old''"
proof
  assume t: "is_temp_name dir q" and e: "q = b @ ''.old''"
  from t obtain n where "q = dir @ ''/'' @ ''syncthing'' @ itoa n"
    unfolding is_temp_name_def by blast
  then have "last q = last (itoa n)" using itoa_last[of n] by simp
  moreover from e have "last q = CHR ''d''" by simp
  ultimately show False using itoa_last[of n] by auto
qed

lemma is_temp_name_nonempty: "is_temp_name dir q \<Longrightarrow> q \<noteq> []"
  by (auto simp: is_temp_name_def)

lemma os_Remove_frame:
  "snd (os_Remove E fs p) q = fs q \<or> (q = p \<and> snd (os_Remove E fs p) q = None)"
  by (auto simp: os_Remove_def split: option.splits)

lemma os_Remove_other: "q \<noteq> p \<Longrightarrow> snd (os_Remove E fs p) q = fs q"
  using os_Remove_frame[of E fs p q] by auto

lemma touches_only_temp_refl: "touches_only_temp dir fs fs"
  by (simp add: touches_only_temp_def)

lemma touches_only_temp_remove:
  assumes "touches_only_temp dir fs0 fs" and "fs0 p = None"
  shows "touches_only_temp dir fs0 (snd (os_Remove E fs p))"
  unfolding touches_only_temp_def
proof
  fix q
  from assms(1) have a: "fs q = fs0 q \<or> (fs0 q = None \<and> is_temp_name dir q)"
    by (simp add: touches_only_temp_def)
  from os_Remove_frame[of E fs p q] a assms(2)
  show "snd (os_Remove E fs p) q = fs0 q \<or> (fs0 q = None \<and> is_temp_name dir q)"
    by auto
qed

lemma io_Copy_frame:
  "io_Copy E f name r = (e, f') \<Longrightarrow>
   (\<forall>q. q \<noteq> name \<longrightarrow> f' q = f q) \<and> (f name \<noteq> None \<longrightarrow> f' name \<noteq> None)"
  by (auto simp: io_Copy_def Let_def split: option.splits)

lemma os_Chmod_frame:
  "os_Chmod E f name m = (e, f') \<Longrightarrow>
   (\<forall>q. q \<noteq> name \<longrightarrow> f' q = f q) \<and> (f name \<noteq> None \<longrightarrow> f' name \<noteq> None)"
  by (auto simp: os_Chmod_def split: option.splits)

lemma ioutil_TempFile_Inl: "ioutil_TempFile E fs dir pre = (Inl e, fs1) \<Longrightarrow> fs1 = fs"
  by (auto simp: ioutil_TempFile_def Let_def split: option.splits if_splits)

lemma ioutil_TempFile_Inr:
  "ioutil_TempFile E fs dir pre = (Inr nm, fs1) \<Longrightarrow>
   nm = dir @ ''/'' @ pre @ itoa (nextSuffix E fs) \<and> fs nm = None \<and>
   fs1 = fs(nm \<mapsto> \<lparr>Data = [], Mode = 384\<rparr>)"
  by (auto simp: ioutil_TempFile_def Let_def split: option.splits if_splits)

text \<open>What \<open>writeBinary\<close> does to the file system.\<close>

lemma writeBinary_frame:
  assumes w: "writeBinary E fs dir r = (res, fs')"
  shows "\<exists>name. is_temp_name dir name \<and>
           (\<forall>q. q \<noteq> name \<longrightarrow> fs' q = fs q) \<and>
           (fs name \<noteq> None \<longrightarrow> fs' = fs) \<and>
           (\<forall>nm. res = Inr nm \<longrightarrow> nm = name \<and> fs name = None \<and> fs' nm \<noteq> None)"
proof -
  define name where "name = dir @ ''/'' @ ''syncthing'' @ itoa (nextSuffix E fs)"
  have t: "is_temp_name dir name" unfolding is_temp_name_def name_def by blast
  obtain tr fs1 where tf: "ioutil_TempFile E fs dir ''syncthing'' = (tr, fs1)"
    by (cases "ioutil_TempFile E fs dir ''syncthing''")
  show ?thesis
  proof (cases tr)
    case (Inl e)
    with tf have "fs1 = fs"
      using ioutil_TempFile_Inl[of E fs dir "''syncthing''" e fs1] by simp
    with tf Inl w have "fs' = fs" "res = Inl e" by (simp_all add: writeBinary_def)
    with t show ?thesis by blast
  next
    case (Inr nm)
    from ioutil_TempFile_Inr[of E fs dir "''syncthing''" nm fs1] tf Inr
    have c0: "nm = dir @ ''/'' @ ''syncthing'' @ itoa (nextSuffix E fs) \<and> fs nm = None \<and>
              fs1 = fs(nm \<mapsto> \<lparr>Data = [], Mode = 384\<rparr>)" by blast
    then have c: "nm = name" "fs name = None" "fs1 = fs(name \<mapsto> \<lparr>Data = [], Mode = 384\<rparr>)"
      unfolding name_def by blast+
    obtain ce fs2 where cp: "io_Copy E fs1 name r = (ce, fs2)" by (cases "io_Copy E fs1 name r")
    from io_Copy_frame[OF cp] c(3)
    have f2: "\<forall>q. q \<noteq> name \<longrightarrow> fs2 q = fs q" "fs2 name \<noteq> None" by auto
    obtain he fs3 where ch: "os_Chmod E fs2 name 493 = (he, fs3)"
      by (cases "os_Chmod E fs2 name 493")
    from os_Chmod_frame[OF ch] f2
    have f3: "\<forall>q. q \<noteq> name \<longrightarrow> fs3 q = fs q" "fs3 name \<noteq> None" by auto
    have w': "(res, fs') =
      (case ce of
         Some err \<Rightarrow> (Inl err, snd (os_Remove E fs2 name))
       | None \<Rightarrow>
           (case os_fail E fs2 (OpClose name) of
              Some err \<Rightarrow> (Inl err, snd (os_Remove E fs2 name))
            | None \<Rightarrow>
                (case he of
                   Some err \<Rightarrow> (Inl err, snd (os_Remove E fs3 name))
                 | None \<Rightarrow> (Inr name, fs3))))"
      using w tf Inr c(1) cp ch by (auto simp: writeBinary_def split: option.splits)
    have oth: "\<forall>q. q \<noteq> name \<longrightarrow> fs' q = fs q"
      using w' f2(1) f3(1) by (auto simp: os_Remove_other split: option.splits)
    have ok: "\<forall>nm'. res = Inr nm' \<longrightarrow> nm' = name \<and> fs' nm' \<noteq> None"
      using w' f3(2) by (auto split: option.splits)
    from t oth ok c(2) show ?thesis by blast
  qed
qed

lemma archiveFileVisitor_cases:
  assumes "archiveFileVisitor E fs dir t s p r = (err, t', s', fs')"
  shows "(t' = t \<and> fs' = fs) \<or>
         (\<exists>res. writeBinary E fs dir (io_LimitReader r maxBinarySize) = (res, fs') \<and>
            s' = s \<and>
            (case res of Inl e \<Rightarrow> err = Some e \<and> t' = [] | Inr nm \<Rightarrow> err = None \<and> t' = nm))"
  using assms
  by (auto simp: archiveFileVisitor_def Let_def ioutil_ReadAll_def
      split: if_splits prod.splits sum.splits option.splits)

lemma archiveFileVisitor_inv:
  assumes i: "scan_inv dir f0 t fs"
    and v: "archiveFileVisitor E fs dir t s p r = (err, t', s', fs')"
  shows "scan_inv dir f0 t' fs'"
proof -
  from archiveFileVisitor_cases[OF v] show ?thesis
  proof
    assume "t' = t \<and> fs' = fs"
    with i show ?thesis by simp
  next
    assume "\<exists>res. writeBinary E fs dir (io_LimitReader r maxBinarySize) = (res, fs') \<and>
            s' = s \<and>
            (case res of Inl e \<Rightarrow> err = Some e \<and> t' = [] | Inr nm \<Rightarrow> err = None \<and> t' = nm)"
    then obtain res where w: "writeBinary E fs dir (io_LimitReader r maxBinarySize) = (res, fs')"
      and c: "(case res of Inl e \<Rightarrow> err = Some e \<and> t' = [] | Inr nm \<Rightarrow> err = None \<and> t' = nm)"
      by blast
    from writeBinary_frame[OF w] obtain name where
      n: "is_temp_name dir name" "\<forall>q. q \<noteq> name \<longrightarrow> fs' q = fs q" "fs name \<noteq> None \<longrightarrow> fs' = fs"
         "\<forall>nm. res = Inr nm \<longrightarrow> nm = name \<and> fs name = None \<and> fs' nm \<noteq> None"
      by blast
    from i have tt: "\<forall>q. fs q = f0 q \<or> (f0 q = None \<and> is_temp_name dir q)"
      by (simp add: scan_inv_def touches_only_temp_def)
    have a: "touches_only_temp dir f0 fs'"
      unfolding touches_only_temp_def
    proof
      fix q
      show "fs' q = f0 q \<or> (f0 q = None \<and> is_temp_name dir q)"
      proof (cases "q = name")
        case False
        with n(2) tt show ?thesis by auto
      next
        case True
        show ?thesis
        proof (cases "fs name = None")
          case True
          with tt have "f0 name = None" by (metis)
          with \<open>q = name\<close> n(1) show ?thesis by simp
        next
          case False
          with n(3) tt show ?thesis by auto
        qed
      qed
    qed
    have b: "t' \<noteq> [] \<longrightarrow> is_temp_name dir t' \<and> f0 t' = None"
    proof (cases res)
      case (Inl e)
      with c show ?thesis by simp
    next
      case (Inr nm)
      with c n(4) have "t' = name" "fs name = None" by auto
      moreover from this tt have "f0 name = None" by metis
      ultimately show ?thesis using n(1) by simp
    qed
    from a b show ?thesis by (simp add: scan_inv_def)
  qed
qed

lemma readTarGz_loop_inv:
  "scan_inv dir f0 t fs \<Longrightarrow> readTarGz_loop E dir i t s fs xs = (err, t', s', fs') \<Longrightarrow>
   scan_inv dir f0 t' fs'"
proof (induction xs arbitrary: i t s fs)
  case Nil
  then show ?case by simp
next
  case (Cons x xs)
  show ?case
  proof (cases "i \<ge> maxArchiveMembers")
    case True
    with Cons.prems show ?thesis by simp
  next
    case False
    show ?thesis
    proof (cases x)
      case (TarErr e)
      with False Cons.prems show ?thesis by simp
    next
      case (TarHdr hdr)
      show ?thesis
      proof (cases "hdr_Size hdr > int maxBinarySize")
        case True
        with False TarHdr Cons.prems show ?thesis by simp
      next
        case big: False
        obtain e1 t1 s1 fs1 where
          v: "archiveFileVisitor E fs dir t s (hdr_Name hdr) (hdr_Data hdr) = (e1, t1, s1, fs1)"
          by (cases "archiveFileVisitor E fs dir t s (hdr_Name hdr) (hdr_Data hdr)") auto
        note i1 = archiveFileVisitor_inv[OF Cons.prems(1) v]
        show ?thesis
        proof (cases "e1 = None \<and> \<not> (t1 \<noteq> [] \<and> s1 \<noteq> None)")
          case True
          with False TarHdr big v Cons.prems(2)
          have "readTarGz_loop E dir (i + 1) t1 s1 fs1 xs = (err, t', s', fs')" by auto
          from Cons.IH[OF i1 this] show ?thesis .
        next
          case False
          with \<open>\<not> i \<ge> maxArchiveMembers\<close> TarHdr big v Cons.prems(2)
          have "t' = t1 \<and> fs' = fs1" by (cases e1) auto
          with i1 show ?thesis by simp
        qed
      qed
    qed
  qed
qed

lemma readZip_loop_inv:
  "scan_inv dir f0 t fs \<Longrightarrow> readZip_loop E dir i t s fs xs = (err, t', s', fs') \<Longrightarrow>
   scan_inv dir f0 t' fs'"
proof (induction xs arbitrary: i t s fs)
  case Nil
  then show ?case by simp
next
  case (Cons x xs)
  show ?case
  proof (cases "i \<ge> maxArchiveMembers \<or> file_UncompressedSize64 x > maxBinarySize")
    case True
    with Cons.prems show ?thesis by (auto split: if_splits)
  next
    case False
    show ?thesis
    proof (cases "file_Open x")
      case (Inl e)
      with False Cons.prems show ?thesis by simp
    next
      case (Inr inFile)
      obtain e1 t1 s1 fs1 where
        v: "archiveFileVisitor E fs dir t s (file_Name x) inFile = (e1, t1, s1, fs1)"
        by (cases "archiveFileVisitor E fs dir t s (file_Name x) inFile") auto
      note i1 = archiveFileVisitor_inv[OF Cons.prems(1) v]
      show ?thesis
      proof (cases "e1 = None \<and> \<not> (t1 \<noteq> [] \<and> s1 \<noteq> None)")
        case True
        with False Inr v Cons.prems(2)
        have "readZip_loop E dir (i + 1) t1 s1 fs1 xs = (err, t', s', fs')" by auto
        from Cons.IH[OF i1 this] show ?thesis .
      next
        case nx: False
        with False Inr v Cons.prems(2)
        have "t' = t1 \<and> fs' = fs1" by (cases e1) auto
        with i1 show ?thesis by simp
      qed
    qed
  qed
qed

lemma verifyUpgrade_None:
  "verifyUpgrade E fs a t s = (None, fs') \<Longrightarrow>
   fs' = fs \<and> t \<noteq> [] \<and> s \<noteq> None \<and> verified_artifact E a fs t"
  by (auto simp: verifyUpgrade_def verified_artifact_def os_Open_def Let_def
      split: if_splits option.splits sum.splits)

lemma verifyUpgrade_inv:
  assumes i: "scan_inv dir f0 t fs" and v: "verifyUpgrade E fs a t s = (r, fs')"
  shows "touches_only_temp dir f0 fs'"
proof (cases "fs' = fs")
  case True
  with i show ?thesis by (simp add: scan_inv_def)
next
  case False
  with v have "t \<noteq> []" "fs' = snd (os_Remove E fs t)"
    by (auto simp: verifyUpgrade_def Let_def split: if_splits option.splits sum.splits)
  with i show ?thesis using touches_only_temp_remove[of dir f0 fs t E]
    by (simp add: scan_inv_def)
qed

lemma scan_finish:
  assumes i: "scan_inv dir fs t1 f1"
    and r: "(res, fs') =
      (case e1 of
         Some err \<Rightarrow> (Inl err, f1)
       | None \<Rightarrow>
           (case verifyUpgrade E f1 a t1 s1 of
              (Some err, fs2) \<Rightarrow> (Inl err, fs2)
            | (None, fs2) \<Rightarrow> (Inr t1, fs2)))"
  shows "touches_only_temp dir fs fs' \<and>
         (\<forall>nm. res = Inr nm \<longrightarrow> is_temp_name dir nm \<and> verified_artifact E a fs' nm)"
proof (cases e1)
  case (Some err)
  with r i show ?thesis by (simp add: scan_inv_def)
next
  case None
  obtain r2 f2 where v: "verifyUpgrade E f1 a t1 s1 = (r2, f2)"
    by (cases "verifyUpgrade E f1 a t1 s1")
  note tt = verifyUpgrade_inv[OF i v]
  show ?thesis
  proof (cases r2)
    case (Some err)
    with None v r tt show ?thesis by simp
  next
    case n2: None
    with None v r have e: "res = Inr t1" "fs' = f2" by simp_all
    from verifyUpgrade_None[of E f1 a t1 s1 f2] v n2
    have k: "f2 = f1" "t1 \<noteq> []" "verified_artifact E a f1 t1" by simp_all
    with i have "is_temp_name dir t1" by (simp add: scan_inv_def)
    with e k tt show ?thesis by simp
  qed
qed

lemma scan_inv_start: "scan_inv dir fs [] fs"
  by (simp add: scan_inv_def touches_only_temp_refl)

lemma readTarGz_effect:
  assumes "readTarGz E fs a dir r = (res, fs')"
  shows "touches_only_temp dir fs fs' \<and>
         (\<forall>nm. res = Inr nm \<longrightarrow> is_temp_name dir nm \<and> verified_artifact E a fs' nm)"
proof (cases "gzip_tar_NewReader E r")
  case (Inl err)
  with assms show ?thesis by (auto simp: readTarGz_def touches_only_temp_refl)
next
  case (Inr tr)
  obtain e1 t1 s1 f1 where l: "readTarGz_loop E dir 0 [] None fs tr = (e1, t1, s1, f1)"
    by (cases "readTarGz_loop E dir 0 [] None fs tr") auto
  note i = readTarGz_loop_inv[OF scan_inv_start l]
  have "(res, fs') =
      (case e1 of
         Some err \<Rightarrow> (Inl err, f1)
       | None \<Rightarrow>
           (case verifyUpgrade E f1 a t1 s1 of
              (Some err, fs2) \<Rightarrow> (Inl err, fs2)
            | (None, fs2) \<Rightarrow> (Inr t1, fs2)))"
    using assms Inr l by (auto simp: readTarGz_def split: option.splits)
  from scan_finish[OF i this] show ?thesis .
qed

lemma readZip_effect:
  assumes "readZip E fs a dir r = (res, fs')"
  shows "touches_only_temp dir fs fs' \<and>
         (\<forall>nm. res = Inr nm \<longrightarrow> is_temp_name dir nm \<and> verified_artifact E a fs' nm)"
proof (cases "\<exists>archive. snd (ioutil_ReadAll r) = None \<and> zip_NewReader E (fst (ioutil_ReadAll r)) = Inr archive")
  case False
  with assms have "fs' = fs \<and> (\<exists>e. res = Inl e)"
    by (auto simp: readZip_def split: prod.splits option.splits sum.splits)
  then show ?thesis by (auto simp: touches_only_temp_refl)
next
  case True
  then obtain archive where a: "snd (ioutil_ReadAll r) = None"
    "zip_NewReader E (fst (ioutil_ReadAll r)) = Inr archive" by blast
  obtain e1 t1 s1 f1 where l: "readZip_loop E dir 0 [] None fs archive = (e1, t1, s1, f1)"
    by (cases "readZip_loop E dir 0 [] None fs archive") auto
  note i = readZip_loop_inv[OF scan_inv_start l]
  have "(res, fs') =
      (case e1 of
         Some err \<Rightarrow> (Inl err, f1)
       | None \<Rightarrow>
           (case verifyUpgrade E f1 a t1 s1 of
              (Some err, fs2) \<Rightarrow> (Inl err, fs2)
            | (None, fs2) \<Rightarrow> (Inr t1, fs2)))"
    using assms a l by (auto simp: readZip_def split: prod.splits option.splits)
  from scan_finish[OF i this] show ?thesis .
qed

lemma readRelease_effect:
  assumes "readRelease E fs a dir url = (res, fs')"
  shows "touches_only_temp dir fs fs' \<and>
         (\<forall>nm. res = Inr nm \<longrightarrow> is_temp_name dir nm \<and> verified_artifact E a fs' nm)"
proof (cases "\<exists>resp. http_NewRequest E ''GET'' url = None \<and>
          http_Do E url [(''Accept'', ''application/octet-stream'')] = Inr resp")
  case False
  with assms have "fs' = fs \<and> (\<exists>e. res = Inl e)"
    by (auto simp: readRelease_def split: option.splits sum.splits)
  then show ?thesis by (auto simp: touches_only_temp_refl)
next
  case True
  then obtain resp where h: "http_NewRequest E ''GET'' url = None"
    "http_Do E url [(''Accept'', ''application/octet-stream'')] = Inr resp" by blast
  show ?thesis
  proof (cases "GOOS E = ''windows''")
    case True
    with assms h have "readZip E fs a dir (io_LimitReader (Body resp) maxArchiveSize) = (res, fs')"
      by (simp add: readRelease_def)
    from readZip_effect[OF this] show ?thesis .
  next
    case False
    with assms h have "readTarGz E fs a dir (io_LimitReader (Body resp) maxArchiveSize) = (res, fs')"
      by (simp add: readRelease_def)
    from readTarGz_effect[OF this] show ?thesis .
  qed
qed

lemma touches_only_temp_frame:
  assumes "touches_only_temp dir fs fs'"
  shows "fs' (b @ ''.old'') = fs (b @ ''.old'') \<and> (fs q \<noteq> None \<longrightarrow> fs' q = fs q)"
  using assms is_temp_name_not_old[of dir "b @ ''.old''" b]
  unfolding touches_only_temp_def by metis

section \<open>Installation\<close>

lemma os_Rename_Some: "os_Rename E fs a b = (Some e, fs') \<Longrightarrow> fs' = fs"
  by (auto simp: os_Rename_def split: option.splits)


text \<open>
  C9. After a successful extraction, \<open>upgradeToURL\<close> renames the temporary file onto the
  binary only in the branch where the rename of the binary to the backup has succeeded.
  When that rename fails, \<open>upgradeToURL\<close> returns its error; the path of the binary holds
  what it held, and the temporary file, verified, is still there.
\<close>

theorem upgradeToURL_backup_rename:
  assumes r: "readRelease E fs archiveName (filepath_Dir binary) url = (Inr fname, fs1)"
  shows "upgradeToURL E fs archiveName binary url =
           (case os_Rename E (snd (os_Remove E fs1 (binary @ ''.old''))) binary (binary @ ''.old'') of
              (Some err, fs3) \<Rightarrow> (Some err, fs3)
            | (None, fs3) \<Rightarrow> os_Rename E fs3 fname binary) \<and>
         (\<forall>err fs3.
            os_Rename E (snd (os_Remove E fs1 (binary @ ''.old''))) binary (binary @ ''.old'') =
              (Some err, fs3) \<longrightarrow>
            upgradeToURL E fs archiveName binary url = (Some err, fs3) \<and>
            fs3 binary = fs1 binary \<and> (fs binary \<noteq> None \<longrightarrow> fs3 binary = fs binary) \<and>
            fs3 fname = fs1 fname \<and> fs3 fname \<noteq> None \<and>
            verified_artifact E archiveName fs3 fname)"
proof -
  define old where "old = binary @ ''.old''"
  define fs2 where "fs2 = snd (os_Remove E fs1 old)"
  note e = readRelease_effect[OF r]
  then have t: "is_temp_name (filepath_Dir binary) fname"
    and v: "verified_artifact E archiveName fs1 fname" by simp_all
  from e touches_only_temp_frame[of "filepath_Dir binary" fs fs1 binary binary]
  have f: "fs binary \<noteq> None \<longrightarrow> fs1 binary = fs binary" by blast
  have ne: "fname \<noteq> old" using is_temp_name_not_old[OF t, of binary] by (simp add: old_def)
  have nb: "binary \<noteq> old" by (simp add: old_def)
  have k: "fs2 fname = fs1 fname" "fs2 binary = fs1 binary"
    using ne nb by (simp_all add: fs2_def os_Remove_other)
  from v k(1) have v2: "verified_artifact E archiveName fs2 fname" "fs2 fname \<noteq> None"
    by (auto simp: verified_artifact_def)
  have 1: "upgradeToURL E fs archiveName binary url =
           (case os_Rename E fs2 binary old of
              (Some err, fs3) \<Rightarrow> (Some err, fs3)
            | (None, fs3) \<Rightarrow> os_Rename E fs3 fname binary)"
    using r by (auto simp: upgradeToURL_def Let_def old_def fs2_def split: prod.splits option.splits)
  have 2: "upgradeToURL E fs archiveName binary url = (Some err, fs3) \<and>
            fs3 binary = fs1 binary \<and> (fs binary \<noteq> None \<longrightarrow> fs3 binary = fs binary) \<and>
            fs3 fname = fs1 fname \<and> fs3 fname \<noteq> None \<and>
            verified_artifact E archiveName fs3 fname"
    if h: "os_Rename E fs2 binary old = (Some err, fs3)" for err fs3
  proof -
    from os_Rename_Some[OF h] have "fs3 = fs2" .
    with 1 h k v2 f show ?thesis by simp
  qed
  from 1 2 show ?thesis unfolding old_def fs2_def by blast
qed

section \<open>Concrete runs\<close>

lemma archiveFileVisitor_other:
  "other_member p \<Longrightarrow> archiveFileVisitor E fs dir t s p r = (None, t, s, fs)"
  by (simp add: archiveFileVisitor_def other_member_def Let_def)

lemma archiveFileVisitor_sig:
  "path_Base p = ''release.sig'' \<Longrightarrow> length b < maxSignatureSize \<Longrightarrow>
   archiveFileVisitor E fs dir t s p (b, None) = (None, t, Some b, fs)"
  by (simp add: archiveFileVisitor_def Let_def ioutil_ReadAll_def io_LimitReader_def)

lemma archiveFileVisitor_bin:
  "path_Base p = ''syncthing'' \<or> path_Base p = ''syncthing.exe'' \<Longrightarrow>
   CHR ''/'' \<notin> set (path_Dir p) \<Longrightarrow>
   writeBinary E fs dir (io_LimitReader r maxBinarySize) = (Inr nm, fs') \<Longrightarrow>
   archiveFileVisitor E fs dir t s p r = (None, nm, s, fs')"
  using strings_Split_length[of "path_Dir p" "CHR ''/''"]
  by (auto simp: archiveFileVisitor_def Let_def)

lemma member_names:
  "path_Base (hdr_Name member_bin) = ''syncthing''"
  "CHR ''/'' \<notin> set (path_Dir (hdr_Name member_bin))"
  "path_Base (hdr_Name member_sig) = ''release.sig''"
  "other_member (hdr_Name member_readme)"
  by code_simp+

lemma member_sizes:
  "\<not> hdr_Size member_bin > int maxBinarySize"
  "\<not> hdr_Size member_sig > int maxBinarySize"
  "\<not> hdr_Size member_readme > int maxBinarySize"
  "length sig_good < maxSignatureSize"
  by (simp_all add: member_bin_def member_sig_def member_readme_def maxBinarySize_value
      maxSignatureSize_value sig_good_def)

lemma member_data:
  "hdr_Data member_bin = (''NEW'', None)" "hdr_Data member_sig = (sig_good, None)"
  by (simp_all add: member_bin_def member_sig_def)

lemma env_tar_fields:
  "http_NewRequest (env_tar ms) = (\<lambda>m url. None)"
  "http_Do (env_tar ms) url hs = Inr \<lparr>StatusCode = 200, Body = (''tgz'', None)\<rparr>"
  "GOOS (env_tar ms) = ''linux''"
  "gzip_tar_NewReader (env_tar ms) r = Inr ms"
  "os_fail (env_tar ms) = (\<lambda>fs op. None)"
  "nextSuffix (env_tar ms) = (\<lambda>fs. 42)"
  "signature_Verify (env_tar ms) = toy_Verify"
  "SigningKey (env_tar ms) = ''K''"
  by (simp_all add: env_tar_def env0_def)

lemma writeBinary_env_tar:
  assumes a: "fs (dir @ ''/syncthing42'') = None" and n: "nextSuffix E = (\<lambda>fs. 42)"
    and o: "\<forall>fs'. os_fail E fs' (OpTempFile dir ''syncthing'') = None \<and>
             os_fail E fs' (OpWrite (dir @ ''/syncthing42'')) = None \<and>
             os_fail E fs' (OpClose (dir @ ''/syncthing42'')) = None \<and>
             os_fail E fs' (OpChmod (dir @ ''/syncthing42'') 493) = None"
  shows "writeBinary E fs dir (io_LimitReader (''NEW'', None) maxBinarySize) =
     (Inr (dir @ ''/syncthing42''), fs(dir @ ''/syncthing42'' \<mapsto> \<lparr>Data = ''NEW'', Mode = 493\<rparr>))"
proof -
  have m: "dir @ ''/syncthing42'' = dir @ ''/'' @ ''syncthing'' @ itoa (nextSuffix E fs)"
    by (simp add: n itoa_42)
  have l: "io_LimitReader (''NEW'', None) maxBinarySize = (''NEW'', None)"
    by (simp add: io_LimitReader_short maxBinarySize_value)
  show ?thesis unfolding l by (rule writeBinary_succeeds[OF o m a])
qed

lemma disk0_temp_free: "disk0 (''/opt/st'' @ ''/syncthing42'') = None"
  by (simp add: disk0_def)

lemma disk1_eq: "disk1 = disk0(''/opt/st'' @ ''/syncthing42'' \<mapsto> \<lparr>Data = ''NEW'', Mode = 493\<rparr>)"
  by (simp add: disk1_def)


lemma loop_full:
  assumes n: "nextSuffix E = (\<lambda>fs. 42)"
    and o: "\<forall>fs'. os_fail E fs' (OpTempFile ''/opt/st'' ''syncthing'') = None \<and>
             os_fail E fs' (OpWrite (''/opt/st'' @ ''/syncthing42'')) = None \<and>
             os_fail E fs' (OpClose (''/opt/st'' @ ''/syncthing42'')) = None \<and>
             os_fail E fs' (OpChmod (''/opt/st'' @ ''/syncthing42'') 493) = None"
  shows "readTarGz_loop E ''/opt/st'' 0 [] None disk0
           [TarHdr member_readme, TarHdr member_bin, TarHdr member_sig] =
     (None, ''/opt/st/syncthing42'', Some sig_good, disk1)"
proof -
  note w = writeBinary_env_tar[where dir="''/opt/st''" and fs=disk0 and E=E, OF disk0_temp_free n o]
  have v: "\<And>s. archiveFileVisitor E disk0 ''/opt/st'' [] s (hdr_Name member_bin) (hdr_Data member_bin)
           = (None, ''/opt/st'' @ ''/syncthing42'', s, disk1)"
    unfolding disk1_eq member_data
    by (rule archiveFileVisitor_bin[OF disjI1[OF member_names(1)] member_names(2) w])
  have g: "\<And>t fs. archiveFileVisitor E fs ''/opt/st'' t None (hdr_Name member_sig) (hdr_Data member_sig)
           = (None, t, Some sig_good, fs)"
    unfolding member_data
    by (rule archiveFileVisitor_sig[OF member_names(3) member_sizes(4)])
  show ?thesis
    using v g
    by (simp add: member_sizes maxArchiveMembers_def archiveFileVisitor_other[OF member_names(4)])
qed

lemma readRelease_tar:
  assumes "http_NewRequest E ''GET'' url = None"
    and "http_Do E url [(''Accept'', ''application/octet-stream'')] = Inr resp"
    and "GOOS E \<noteq> ''windows''"
    and "gzip_tar_NewReader E (io_LimitReader (Body resp) maxArchiveSize) = Inr ms"
    and "readTarGz_loop E dir 0 [] None fs ms = (None, t, s, fs1)"
  shows "readRelease E fs a dir url =
           (case verifyUpgrade E fs1 a t s of
              (Some err, fs2) \<Rightarrow> (Inl err, fs2)
            | (None, fs2) \<Rightarrow> (Inr t, fs2))"
  using assms by (simp add: readRelease_def readTarGz_def)

lemma readRelease_zip:
  assumes "http_NewRequest E ''GET'' url = None"
    and "http_Do E url [(''Accept'', ''application/octet-stream'')] = Inr resp"
    and "GOOS E = ''windows''"
    and "snd (io_LimitReader (Body resp) maxArchiveSize) = None"
    and "zip_NewReader E (fst (io_LimitReader (Body resp) maxArchiveSize)) = Inr ms"
    and "readZip_loop E dir 0 [] None fs ms = (None, t, s, fs1)"
  shows "readRelease E fs a dir url =
           (case verifyUpgrade E fs1 a t s of
              (Some err, fs2) \<Rightarrow> (Inl err, fs2)
            | (None, fs2) \<Rightarrow> (Inr t, fs2))"
  using assms
  by (cases "io_LimitReader (Body resp) maxArchiveSize")
     (simp add: readRelease_def readZip_def ioutil_ReadAll_def)

lemma dir_of_binary: "filepath_Dir ''/opt/st/syncthing'' = ''/opt/st''"
  by code_simp

lemma os_ok_env_tar:
  "\<forall>fs'. os_fail (env_tar ms) fs' (OpTempFile ''/opt/st'' ''syncthing'') = None \<and>
         os_fail (env_tar ms) fs' (OpWrite (''/opt/st'' @ ''/syncthing42'')) = None \<and>
         os_fail (env_tar ms) fs' (OpClose (''/opt/st'' @ ''/syncthing42'')) = None \<and>
         os_fail (env_tar ms) fs' (OpChmod (''/opt/st'' @ ''/syncthing42'') 493) = None"
  by (simp add: env_tar_fields)

lemma env_denied_fields:
  "http_NewRequest env_denied = (\<lambda>m url. None)"
  "http_Do env_denied url hs = Inr \<lparr>StatusCode = 200, Body = (''tgz'', None)\<rparr>"
  "GOOS env_denied = ''linux''"
  "gzip_tar_NewReader env_denied r = Inr [TarHdr member_readme, TarHdr member_bin, TarHdr member_sig]"
  "os_fail env_denied = deny_backup"
  "nextSuffix env_denied = (\<lambda>fs. 42)"
  "signature_Verify env_denied = toy_Verify"
  "SigningKey env_denied = ''K''"
  by (simp_all add: env_denied_def env_tar_def env0_def)

lemma os_ok_env_denied:
  "\<forall>fs'. os_fail env_denied fs' (OpTempFile ''/opt/st'' ''syncthing'') = None \<and>
         os_fail env_denied fs' (OpWrite (''/opt/st'' @ ''/syncthing42'')) = None \<and>
         os_fail env_denied fs' (OpClose (''/opt/st'' @ ''/syncthing42'')) = None \<and>
         os_fail env_denied fs' (OpChmod (''/opt/st'' @ ''/syncthing42'') 493) = None"
  by (simp add: env_denied_fields deny_backup_def)

lemma toy_good: "toy_Verify ''K'' sig_good (''a.tar.gz'' @ [CHR 0x0A] @ ''NEW'') = None"
  by (simp add: toy_Verify_def sig_good_def)


lemma readRelease_full:
  "readRelease (env_tar [TarHdr member_readme, TarHdr member_bin, TarHdr member_sig])
     disk0 ''a.tar.gz'' ''/opt/st'' ''https://x/a.tar.gz'' = (Inr ''/opt/st/syncthing42'', disk1)"
proof -
  note l = loop_full[of "env_tar [TarHdr member_readme, TarHdr member_bin, TarHdr member_sig]",
      OF env_tar_fields(6) os_ok_env_tar]
  have v: "verifyUpgrade (env_tar [TarHdr member_readme, TarHdr member_bin, TarHdr member_sig])
             disk1 ''a.tar.gz'' ''/opt/st/syncthing42'' (Some sig_good) = (None, disk1)"
    using toy_good by (simp add: verifyUpgrade_def os_Open_def env_tar_fields disk1_def)
  show ?thesis
    by (subst readRelease_tar[OF _ _ _ _ l]) (simp_all add: env_tar_fields v)
qed

lemma readRelease_denied:
  "readRelease env_denied disk0 ''a.tar.gz'' ''/opt/st'' ''https://x/a.tar.gz'' =
     (Inr ''/opt/st/syncthing42'', disk1)"
proof -
  note l = loop_full[of env_denied, OF env_denied_fields(6) os_ok_env_denied]
  have v: "verifyUpgrade env_denied disk1 ''a.tar.gz'' ''/opt/st/syncthing42'' (Some sig_good) =
           (None, disk1)"
    using toy_good
    by (simp add: verifyUpgrade_def os_Open_def env_denied_fields deny_backup_def disk1_def)
  have g: "gzip_tar_NewReader env_denied (io_LimitReader (Body \<lparr>StatusCode = 200, Body = (''tgz'', None)\<rparr>) maxArchiveSize)
           = Inr [TarHdr member_readme, TarHdr member_bin, TarHdr member_sig]"
    by (rule env_denied_fields(4))
  show ?thesis
    by (subst readRelease_tar[OF _ _ _ g l]) (simp_all add: env_denied_fields v)
qed


theorem upgradeToURL_backup_rename_witness:
  "readRelease env_denied disk0 ''a.tar.gz'' (filepath_Dir ''/opt/st/syncthing'')
     ''https://x/a.tar.gz'' = (Inr ''/opt/st/syncthing42'', disk1) \<and>
   os_Rename env_denied (snd (os_Remove env_denied disk1 (''/opt/st/syncthing'' @ ''.old'')))
     ''/opt/st/syncthing'' (''/opt/st/syncthing'' @ ''.old'') =
     (Some (ErrLibrary ''permission denied''), disk1) \<and>
   upgradeToURL env_denied disk0 ''a.tar.gz'' ''/opt/st/syncthing'' ''https://x/a.tar.gz'' =
     (Some (ErrLibrary ''permission denied''), disk1) \<and>
   disk0 ''/opt/st/syncthing'' \<noteq> None \<and>
   disk1 ''/opt/st/syncthing'' = disk0 ''/opt/st/syncthing'' \<and>
   disk1 ''/opt/st/syncthing42'' \<noteq> None \<and>
   verified_artifact env_denied ''a.tar.gz'' disk1 ''/opt/st/syncthing42''"
proof -
  have r: "readRelease env_denied disk0 ''a.tar.gz'' (filepath_Dir ''/opt/st/syncthing'')
     ''https://x/a.tar.gz'' = (Inr ''/opt/st/syncthing42'', disk1)"
    unfolding dir_of_binary by (rule readRelease_denied)
  have n: "os_Rename env_denied (snd (os_Remove env_denied disk1 (''/opt/st/syncthing'' @ ''.old'')))
     ''/opt/st/syncthing'' (''/opt/st/syncthing'' @ ''.old'') =
     (Some (ErrLibrary ''permission denied''), disk1)"
    by (simp add: os_Rename_def os_Remove_def env_denied_fields deny_backup_def disk1_def disk0_def)
  have b: "disk0 ''/opt/st/syncthing'' \<noteq> None" by (simp add: disk0_def)
  note t = upgradeToURL_backup_rename[OF r, THEN conjunct2, rule_format, OF n]
  from r n b t show ?thesis by simp
qed

section \<open>The member cap\<close>

lemma readTarGz_loop_capped:
  "\<forall>h \<in> set hs. other_member (hdr_Name h) \<Longrightarrow> maxArchiveMembers \<le> i + length hs \<Longrightarrow>
   readTarGz_loop E dir i t s fs (map TarHdr hs @ rest) = (None, t, s, fs)"
proof (induction hs arbitrary: i)
  case Nil
  then show ?case by (cases rest) simp_all
next
  case (Cons h hs)
  from Cons.prems have o: "other_member (hdr_Name h)" and r: "\<forall>h \<in> set hs. other_member (hdr_Name h)"
    and l: "maxArchiveMembers \<le> (i + 1) + length hs" by simp_all
  show ?case
    using Cons.IH[OF r l] by (simp add: archiveFileVisitor_other[OF o])
qed

lemma readTarGz_loop_skip:
  "\<forall>h \<in> set hs. other_member (hdr_Name h) \<and> hdr_Size h \<le> int maxBinarySize \<Longrightarrow>
   i + length hs \<le> maxArchiveMembers \<Longrightarrow> \<not> (t \<noteq> [] \<and> s \<noteq> None) \<Longrightarrow>
   readTarGz_loop E dir i t s fs (map TarHdr hs @ rest) = readTarGz_loop E dir (i + length hs) t s fs rest"
proof (induction hs arbitrary: i)
  case Nil
  then show ?case by simp
next
  case (Cons h hs)
  from Cons.prems have o: "other_member (hdr_Name h)" "hdr_Size h \<le> int maxBinarySize"
    and r: "\<forall>h \<in> set hs. other_member (hdr_Name h) \<and> hdr_Size h \<le> int maxBinarySize"
    and l: "(i + 1) + length hs \<le> maxArchiveMembers" "\<not> maxArchiveMembers \<le> i" by simp_all
  show ?case
    using Cons.IH[OF r l(1) Cons.prems(3)] l(2) o(2) Cons.prems(3)
    by (auto simp: archiveFileVisitor_other[OF o(1)])
qed

lemma readZip_loop_capped:
  "\<forall>f \<in> set fl. other_member (file_Name f) \<and>
       (file_UncompressedSize64 f \<le> maxBinarySize \<longrightarrow> (\<exists>d. file_Open f = Inr d)) \<Longrightarrow>
   maxArchiveMembers \<le> i + length fl \<Longrightarrow>
   readZip_loop E dir i t s fs (fl @ rest) = (None, t, s, fs)"
proof (induction fl arbitrary: i)
  case Nil
  then show ?case by (cases rest) simp_all
next
  case (Cons f fl)
  from Cons.prems have o: "other_member (file_Name f)"
    and d: "file_UncompressedSize64 f \<le> maxBinarySize \<longrightarrow> (\<exists>d. file_Open f = Inr d)"
    and r: "\<forall>f \<in> set fl. other_member (file_Name f) \<and>
       (file_UncompressedSize64 f \<le> maxBinarySize \<longrightarrow> (\<exists>d. file_Open f = Inr d))"
    and l: "maxArchiveMembers \<le> (i + 1) + length fl" by simp_all
  show ?case
    using Cons.IH[OF r l] d by (auto simp: archiveFileVisitor_other[OF o])
qed

lemma readZip_loop_skip:
  "\<forall>f \<in> set fl. other_member (file_Name f) \<and> file_UncompressedSize64 f \<le> maxBinarySize \<and>
       (\<exists>d. file_Open f = Inr d) \<Longrightarrow>
   i + length fl \<le> maxArchiveMembers \<Longrightarrow> \<not> (t \<noteq> [] \<and> s \<noteq> None) \<Longrightarrow>
   readZip_loop E dir i t s fs (fl @ rest) = readZip_loop E dir (i + length fl) t s fs rest"
proof (induction fl arbitrary: i)
  case Nil
  then show ?case by simp
next
  case (Cons f fl)
  from Cons.prems have o: "other_member (file_Name f)" "file_UncompressedSize64 f \<le> maxBinarySize"
      "\<exists>d. file_Open f = Inr d"
    and r: "\<forall>f \<in> set fl. other_member (file_Name f) \<and> file_UncompressedSize64 f \<le> maxBinarySize \<and>
       (\<exists>d. file_Open f = Inr d)"
    and l: "(i + 1) + length fl \<le> maxArchiveMembers" "\<not> maxArchiveMembers \<le> i" by simp_all
  show ?case
    using Cons.IH[OF r l(1) Cons.prems(3)] l(2) o(2,3) Cons.prems(3)
    by (auto simp: archiveFileVisitor_other[OF o(1)])
qed

lemma writeBinary_name_nonempty: "writeBinary E fs dir r = (Inr nm, fs') \<Longrightarrow> nm \<noteq> []"
  using writeBinary_frame[of E fs dir r "Inr nm" fs'] is_temp_name_nonempty[of dir nm] by auto

lemma readTarGz_loop_binary_then_cap:
  assumes h1: "\<forall>h \<in> set hs1. other_member (hdr_Name h) \<and> hdr_Size h \<le> int maxBinarySize"
    and n1: "length hs1 < maxArchiveMembers"
    and b: "hdr_Size b \<le> int maxBinarySize"
      "path_Base (hdr_Name b) = ''syncthing'' \<or> path_Base (hdr_Name b) = ''syncthing.exe''"
      "CHR ''/'' \<notin> set (path_Dir (hdr_Name b))"
      "writeBinary E fs dir (io_LimitReader (hdr_Data b) maxBinarySize) = (Inr nm, fs')"
    and h2: "\<forall>h \<in> set hs2. other_member (hdr_Name h)"
    and n2: "maxArchiveMembers \<le> length hs1 + 1 + length hs2"
  shows "readTarGz_loop E dir 0 [] None fs (map TarHdr hs1 @ [TarHdr b] @ map TarHdr hs2 @ rest) =
           (None, nm, None, fs')"
proof -
  have 1: "readTarGz_loop E dir 0 [] None fs (map TarHdr hs1 @ [TarHdr b] @ map TarHdr hs2 @ rest) =
           readTarGz_loop E dir (0 + length hs1) [] None fs ([TarHdr b] @ map TarHdr hs2 @ rest)"
    using n1 by (intro readTarGz_loop_skip[OF h1]) simp_all
  have v: "archiveFileVisitor E fs dir [] None (hdr_Name b) (hdr_Data b) = (None, nm, None, fs')"
    by (rule archiveFileVisitor_bin[OF b(2,3,4)])
  have 2: "readTarGz_loop E dir (length hs1) [] None fs ([TarHdr b] @ map TarHdr hs2 @ rest) =
           readTarGz_loop E dir (length hs1 + 1) nm None fs' (map TarHdr hs2 @ rest)"
    using n1 b(1) v by simp
  have 3: "readTarGz_loop E dir (length hs1 + 1) nm None fs' (map TarHdr hs2 @ rest) =
           (None, nm, None, fs')"
    using n2 by (intro readTarGz_loop_capped[OF h2]) simp
  from 1 2 3 show ?thesis by simp
qed

lemma readZip_loop_binary_then_cap:
  assumes h1: "\<forall>f \<in> set fl1. other_member (file_Name f) \<and> file_UncompressedSize64 f \<le> maxBinarySize \<and>
       (\<exists>d. file_Open f = Inr d)"
    and n1: "length fl1 < maxArchiveMembers"
    and b: "file_UncompressedSize64 b \<le> maxBinarySize" "file_Open b = Inr d"
      "path_Base (file_Name b) = ''syncthing'' \<or> path_Base (file_Name b) = ''syncthing.exe''"
      "CHR ''/'' \<notin> set (path_Dir (file_Name b))"
      "writeBinary E fs dir (io_LimitReader d maxBinarySize) = (Inr nm, fs')"
    and h2: "\<forall>f \<in> set fl2. other_member (file_Name f) \<and>
       (file_UncompressedSize64 f \<le> maxBinarySize \<longrightarrow> (\<exists>d. file_Open f = Inr d))"
    and n2: "maxArchiveMembers \<le> length fl1 + 1 + length fl2"
  shows "readZip_loop E dir 0 [] None fs (fl1 @ [b] @ fl2 @ rest) = (None, nm, None, fs')"
proof -
  have 1: "readZip_loop E dir 0 [] None fs (fl1 @ [b] @ fl2 @ rest) =
           readZip_loop E dir (0 + length fl1) [] None fs ([b] @ fl2 @ rest)"
    using n1 by (intro readZip_loop_skip[OF h1]) simp_all
  have v: "archiveFileVisitor E fs dir [] None (file_Name b) d = (None, nm, None, fs')"
    by (rule archiveFileVisitor_bin[OF b(3,4,5)])
  have 2: "readZip_loop E dir (length fl1) [] None fs ([b] @ fl2 @ rest) =
           readZip_loop E dir (length fl1 + 1) nm None fs' (fl2 @ rest)"
    using n1 b(1,2) v by simp
  have 3: "readZip_loop E dir (length fl1 + 1) nm None fs' (fl2 @ rest) = (None, nm, None, fs')"
    using n2 by (intro readZip_loop_capped[OF h2]) simp
  from 1 2 3 show ?thesis by simp
qed

text \<open>
  C6. Both readers visit at most \<open>maxArchiveMembers\<close> = 100 members. When an archive
  starts with at least that many members that are neither a binary nor a signature, the
  reader finds nothing behind them and fails with "no upgrade found", leaving the file
  system as it was. When the binary is among the first hundred members and no signature
  is, the reader fails with "no signature found", and the temporary file it has written
  stays.
\<close>

theorem archive_member_cap:
  "maxArchiveMembers = 100 \<and>
   (\<forall>hs rest.
      gzip_tar_NewReader E r = Inr (map TarHdr hs @ rest) \<and>
      maxArchiveMembers \<le> length hs \<and> (\<forall>h \<in> set hs. other_member (hdr_Name h)) \<longrightarrow>
      readTarGz E fs a dir r = (Inl (Errorf ''no upgrade found''), fs)) \<and>
   (\<forall>fl rest.
      snd r = None \<and> zip_NewReader E (fst r) = Inr (fl @ rest) \<and>
      maxArchiveMembers \<le> length fl \<and>
      (\<forall>f \<in> set fl. other_member (file_Name f) \<and>
         (file_UncompressedSize64 f \<le> maxBinarySize \<longrightarrow> (\<exists>d. file_Open f = Inr d))) \<longrightarrow>
      readZip E fs a dir r = (Inl (Errorf ''no upgrade found''), fs)) \<and>
   (\<forall>hs1 b hs2 rest nm fs'.
      gzip_tar_NewReader E r = Inr (map TarHdr hs1 @ [TarHdr b] @ map TarHdr hs2 @ rest) \<and>
      length hs1 < maxArchiveMembers \<and> maxArchiveMembers \<le> length hs1 + 1 + length hs2 \<and>
      (\<forall>h \<in> set hs1. other_member (hdr_Name h) \<and> hdr_Size h \<le> int maxBinarySize) \<and>
      (\<forall>h \<in> set hs2. other_member (hdr_Name h)) \<and>
      hdr_Size b \<le> int maxBinarySize \<and>
      (path_Base (hdr_Name b) = ''syncthing'' \<or> path_Base (hdr_Name b) = ''syncthing.exe'') \<and>
      CHR ''/'' \<notin> set (path_Dir (hdr_Name b)) \<and>
      writeBinary E fs dir (io_LimitReader (hdr_Data b) maxBinarySize) = (Inr nm, fs') \<longrightarrow>
      readTarGz E fs a dir r = (Inl (Errorf ''no signature found''), fs')) \<and>
   (\<forall>fl1 b d fl2 rest nm fs'.
      snd r = None \<and> zip_NewReader E (fst r) = Inr (fl1 @ [b] @ fl2 @ rest) \<and>
      length fl1 < maxArchiveMembers \<and> maxArchiveMembers \<le> length fl1 + 1 + length fl2 \<and>
      (\<forall>f \<in> set fl1. other_member (file_Name f) \<and> file_UncompressedSize64 f \<le> maxBinarySize \<and>
         (\<exists>d. file_Open f = Inr d)) \<and>
      (\<forall>f \<in> set fl2. other_member (file_Name f) \<and>
         (file_UncompressedSize64 f \<le> maxBinarySize \<longrightarrow> (\<exists>d. file_Open f = Inr d))) \<and>
      file_UncompressedSize64 b \<le> maxBinarySize \<and> file_Open b = Inr d \<and>
      (path_Base (file_Name b) = ''syncthing'' \<or> path_Base (file_Name b) = ''syncthing.exe'') \<and>
      CHR ''/'' \<notin> set (path_Dir (file_Name b)) \<and>
      writeBinary E fs dir (io_LimitReader d maxBinarySize) = (Inr nm, fs') \<longrightarrow>
      readZip E fs a dir r = (Inl (Errorf ''no signature found''), fs'))"
proof -
  have nu: "\<And>f. verifyUpgrade E f a [] None = (Some (Errorf ''no upgrade found''), f)"
    by (simp add: verifyUpgrade_def)
  have ns: "\<And>f nm. nm \<noteq> [] \<Longrightarrow>
      verifyUpgrade E f a nm None = (Some (Errorf ''no signature found''), f)"
    by (simp add: verifyUpgrade_def)
  have z: "snd r = None \<Longrightarrow> ioutil_ReadAll r = (fst r, None)"
    by (cases r) (simp add: ioutil_ReadAll_def)
  have 1: "readTarGz E fs a dir r = (Inl (Errorf ''no upgrade found''), fs)"
    if "gzip_tar_NewReader E r = Inr (map TarHdr hs @ rest)"
      "maxArchiveMembers \<le> length hs" "\<forall>h \<in> set hs. other_member (hdr_Name h)" for hs rest
    using that readTarGz_loop_capped[of hs 0 E dir "[]" None fs rest]
    by (simp add: readTarGz_def nu)
  have 2: "readZip E fs a dir r = (Inl (Errorf ''no upgrade found''), fs)"
    if "snd r = None" "zip_NewReader E (fst r) = Inr (fl @ rest)" "maxArchiveMembers \<le> length fl"
      "\<forall>f \<in> set fl. other_member (file_Name f) \<and>
         (file_UncompressedSize64 f \<le> maxBinarySize \<longrightarrow> (\<exists>d. file_Open f = Inr d))" for fl rest
    using that readZip_loop_capped[of fl 0 E dir "[]" None fs rest]
    by (simp add: readZip_def nu z)
  have 3: "readTarGz E fs a dir r = (Inl (Errorf ''no signature found''), fs')"
    if g: "gzip_tar_NewReader E r = Inr (map TarHdr hs1 @ [TarHdr b] @ map TarHdr hs2 @ rest)"
      and n: "length hs1 < maxArchiveMembers" "maxArchiveMembers \<le> length hs1 + 1 + length hs2"
      and h: "\<forall>h \<in> set hs1. other_member (hdr_Name h) \<and> hdr_Size h \<le> int maxBinarySize"
        "\<forall>h \<in> set hs2. other_member (hdr_Name h)"
      and b: "hdr_Size b \<le> int maxBinarySize"
        "path_Base (hdr_Name b) = ''syncthing'' \<or> path_Base (hdr_Name b) = ''syncthing.exe''"
        "CHR ''/'' \<notin> set (path_Dir (hdr_Name b))"
        "writeBinary E fs dir (io_LimitReader (hdr_Data b) maxBinarySize) = (Inr nm, fs')"
    for hs1 b hs2 rest nm fs'
  proof -
    note l = readTarGz_loop_binary_then_cap[OF h(1) n(1) b h(2) n(2), of rest]
    from writeBinary_name_nonempty[OF b(4)] have "nm \<noteq> []" .
    with g l show ?thesis by (simp add: readTarGz_def ns)
  qed
  have 4: "readZip E fs a dir r = (Inl (Errorf ''no signature found''), fs')"
    if s: "snd r = None" and g: "zip_NewReader E (fst r) = Inr (fl1 @ [b] @ fl2 @ rest)"
      and n: "length fl1 < maxArchiveMembers" "maxArchiveMembers \<le> length fl1 + 1 + length fl2"
      and h: "\<forall>f \<in> set fl1. other_member (file_Name f) \<and> file_UncompressedSize64 f \<le> maxBinarySize \<and>
         (\<exists>d. file_Open f = Inr d)"
        "\<forall>f \<in> set fl2. other_member (file_Name f) \<and>
         (file_UncompressedSize64 f \<le> maxBinarySize \<longrightarrow> (\<exists>d. file_Open f = Inr d))"
      and b: "file_UncompressedSize64 b \<le> maxBinarySize" "file_Open b = Inr d"
        "path_Base (file_Name b) = ''syncthing'' \<or> path_Base (file_Name b) = ''syncthing.exe''"
        "CHR ''/'' \<notin> set (path_Dir (file_Name b))"
        "writeBinary E fs dir (io_LimitReader d maxBinarySize) = (Inr nm, fs')"
    for fl1 b d fl2 rest nm fs'
  proof -
    note l = readZip_loop_binary_then_cap[OF h(1) n(1) b h(2) n(2), of rest]
    from writeBinary_name_nonempty[OF b(5)] have "nm \<noteq> []" .
    with s g l show ?thesis by (simp add: readZip_def ns z)
  qed
  have 0: "maxArchiveMembers = 100" by (simp add: maxArchiveMembers_def)
  show ?thesis
    apply (intro conjI allI impI)
    subgoal by (rule 0)
    subgoal by (elim conjE, rule 1; assumption)
    subgoal by (elim conjE, rule 2; assumption)
    subgoal by (elim conjE, rule 3; assumption)
    subgoal by (elim conjE, rule 4; assumption)
    done
qed

lemma env_zip_fields:
  "zip_NewReader (env_zip fl) b = Inr fl"
  "os_fail (env_zip fl) = (\<lambda>fs op. None)"
  "nextSuffix (env_zip fl) = (\<lambda>fs. 42)"
  by (simp_all add: env_zip_def env0_def)

lemma os_ok_env_zip:
  "\<forall>fs'. os_fail (env_zip fl) fs' (OpTempFile ''/opt/st'' ''syncthing'') = None \<and>
         os_fail (env_zip fl) fs' (OpWrite (''/opt/st'' @ ''/syncthing42'')) = None \<and>
         os_fail (env_zip fl) fs' (OpClose (''/opt/st'' @ ''/syncthing42'')) = None \<and>
         os_fail (env_zip fl) fs' (OpChmod (''/opt/st'' @ ''/syncthing42'') 493) = None"
  by (simp add: env_zip_fields)

lemma zip_member_fields:
  "file_Name (zip_member h) = hdr_Name h"
  "file_Open (zip_member h) = Inr (hdr_Data h)"
  "file_UncompressedSize64 (zip_member h) = nat (hdr_Size h)"
  by (simp_all add: zip_member_def)

theorem archive_member_cap_witness:
  "readTarGz (env_tar (map TarHdr (replicate 100 member_readme) @ [TarHdr member_bin, TarHdr member_sig]))
     disk0 ''a.tar.gz'' ''/opt/st'' (''tgz'', None) = (Inl (Errorf ''no upgrade found''), disk0) \<and>
   readZip (env_zip (replicate 100 (zip_member member_readme) @ [zip_member member_bin, zip_member member_sig]))
     disk0 ''a.zip'' ''/opt/st'' (''zip'', None) = (Inl (Errorf ''no upgrade found''), disk0) \<and>
   readTarGz (env_tar (map TarHdr [] @ [TarHdr member_bin] @ map TarHdr (replicate 99 member_readme) @ [TarHdr member_sig]))
     disk0 ''a.tar.gz'' ''/opt/st'' (''tgz'', None) = (Inl (Errorf ''no signature found''), disk1) \<and>
   readZip (env_zip ([] @ [zip_member member_bin] @ replicate 99 (zip_member member_readme) @ [zip_member member_sig]))
     disk0 ''a.zip'' ''/opt/st'' (''zip'', None) = (Inl (Errorf ''no signature found''), disk1) \<and>
   readRelease (env_tar [TarHdr member_readme, TarHdr member_bin, TarHdr member_sig])
     disk0 ''a.tar.gz'' ''/opt/st'' ''https://x/a.tar.gz'' = (Inr ''/opt/st/syncthing42'', disk1)"
proof -
  define E1 where "E1 = env_tar (map TarHdr (replicate 100 member_readme) @ [TarHdr member_bin, TarHdr member_sig])"
  define E2 where "E2 = env_zip (replicate 100 (zip_member member_readme) @ [zip_member member_bin, zip_member member_sig])"
  define E3 where "E3 = env_tar (map TarHdr [] @ [TarHdr member_bin] @ map TarHdr (replicate 99 member_readme) @ [TarHdr member_sig])"
  define E4 where "E4 = env_zip ([] @ [zip_member member_bin] @ replicate 99 (zip_member member_readme) @ [zip_member member_sig])"
  have sz: "hdr_Size member_readme \<le> int maxBinarySize" "hdr_Size member_bin \<le> int maxBinarySize"
    "nat (hdr_Size member_readme) \<le> maxBinarySize" "nat (hdr_Size member_bin) \<le> maxBinarySize"
    by (simp_all add: member_readme_def member_bin_def maxBinarySize_value)
  have p1: "gzip_tar_NewReader E1 (''tgz'', None) =
              Inr (map TarHdr (replicate 100 member_readme) @ [TarHdr member_bin, TarHdr member_sig]) \<and>
            maxArchiveMembers \<le> length (replicate 100 member_readme) \<and>
            (\<forall>h \<in> set (replicate 100 member_readme). other_member (hdr_Name h))"
    by (simp add: E1_def env_tar_fields maxArchiveMembers_def member_names(4))
  note c1 = archive_member_cap[where E=E1 and r="(''tgz'', None)" and fs=disk0 and a="''a.tar.gz''"
      and dir="''/opt/st''", THEN conjunct2, THEN conjunct1, rule_format, OF p1]
  have p2: "snd (''zip'', None) = None \<and>
            zip_NewReader E2 (fst (''zip'', None)) =
              Inr (replicate 100 (zip_member member_readme) @ [zip_member member_bin, zip_member member_sig]) \<and>
            maxArchiveMembers \<le> length (replicate 100 (zip_member member_readme)) \<and>
            (\<forall>f \<in> set (replicate 100 (zip_member member_readme)). other_member (file_Name f) \<and>
               (file_UncompressedSize64 f \<le> maxBinarySize \<longrightarrow> (\<exists>d. file_Open f = Inr d)))"
    by (simp add: E2_def env_zip_fields maxArchiveMembers_def member_names(4) zip_member_fields)
  note c2 = archive_member_cap[where E=E2 and r="(''zip'', None)" and fs=disk0 and a="''a.zip''"
      and dir="''/opt/st''", THEN conjunct2, THEN conjunct2, THEN conjunct1, rule_format, OF p2]
  have w3: "writeBinary E3 disk0 ''/opt/st'' (io_LimitReader (hdr_Data member_bin) maxBinarySize) =
              (Inr ''/opt/st/syncthing42'', disk1)"
    unfolding member_data disk1_eq
    using writeBinary_env_tar[where dir="''/opt/st''" and fs=disk0 and E=E3, OF disk0_temp_free]
      os_ok_env_tar env_tar_fields(6) by (simp add: E3_def)
  have p3: "gzip_tar_NewReader E3 (''tgz'', None) =
              Inr (map TarHdr [] @ [TarHdr member_bin] @ map TarHdr (replicate 99 member_readme) @ [TarHdr member_sig]) \<and>
            length ([]::tar_header list) < maxArchiveMembers \<and>
            maxArchiveMembers \<le> length ([]::tar_header list) + 1 + length (replicate 99 member_readme) \<and>
            (\<forall>h \<in> set []. other_member (hdr_Name h) \<and> hdr_Size h \<le> int maxBinarySize) \<and>
            (\<forall>h \<in> set (replicate 99 member_readme). other_member (hdr_Name h)) \<and>
            hdr_Size member_bin \<le> int maxBinarySize \<and>
            (path_Base (hdr_Name member_bin) = ''syncthing'' \<or> path_Base (hdr_Name member_bin) = ''syncthing.exe'') \<and>
            CHR ''/'' \<notin> set (path_Dir (hdr_Name member_bin)) \<and>
            writeBinary E3 disk0 ''/opt/st'' (io_LimitReader (hdr_Data member_bin) maxBinarySize) =
              (Inr ''/opt/st/syncthing42'', disk1)"
    using w3 by (simp add: E3_def env_tar_fields maxArchiveMembers_def member_names sz)
  note c3 = archive_member_cap[where E=E3 and r="(''tgz'', None)" and fs=disk0 and a="''a.tar.gz''"
      and dir="''/opt/st''", THEN conjunct2, THEN conjunct2, THEN conjunct2, THEN conjunct1,
      rule_format, OF p3]
  have w4: "writeBinary E4 disk0 ''/opt/st'' (io_LimitReader (hdr_Data member_bin) maxBinarySize) =
              (Inr ''/opt/st/syncthing42'', disk1)"
    unfolding member_data disk1_eq
    using writeBinary_env_tar[where dir="''/opt/st''" and fs=disk0 and E=E4, OF disk0_temp_free]
      os_ok_env_zip env_zip_fields(3) by (simp add: E4_def)
  have p4: "snd (''zip'', None) = None \<and>
            zip_NewReader E4 (fst (''zip'', None)) =
              Inr ([] @ [zip_member member_bin] @ replicate 99 (zip_member member_readme) @ [zip_member member_sig]) \<and>
            length ([]::zip_file list) < maxArchiveMembers \<and>
            maxArchiveMembers \<le> length ([]::zip_file list) + 1 + length (replicate 99 (zip_member member_readme)) \<and>
            (\<forall>f \<in> set []. other_member (file_Name f) \<and> file_UncompressedSize64 f \<le> maxBinarySize \<and>
               (\<exists>d. file_Open f = Inr d)) \<and>
            (\<forall>f \<in> set (replicate 99 (zip_member member_readme)). other_member (file_Name f) \<and>
               (file_UncompressedSize64 f \<le> maxBinarySize \<longrightarrow> (\<exists>d. file_Open f = Inr d))) \<and>
            file_UncompressedSize64 (zip_member member_bin) \<le> maxBinarySize \<and>
            file_Open (zip_member member_bin) = Inr (hdr_Data member_bin) \<and>
            (path_Base (file_Name (zip_member member_bin)) = ''syncthing'' \<or>
             path_Base (file_Name (zip_member member_bin)) = ''syncthing.exe'') \<and>
            CHR ''/'' \<notin> set (path_Dir (file_Name (zip_member member_bin))) \<and>
            writeBinary E4 disk0 ''/opt/st'' (io_LimitReader (hdr_Data member_bin) maxBinarySize) =
              (Inr ''/opt/st/syncthing42'', disk1)"
    using w4 by (simp add: E4_def env_zip_fields maxArchiveMembers_def member_names sz zip_member_fields)
  note c4 = archive_member_cap[where E=E4 and r="(''zip'', None)" and fs=disk0 and a="''a.zip''"
      and dir="''/opt/st''", THEN conjunct2, THEN conjunct2, THEN conjunct2, THEN conjunct2,
      rule_format, OF p4]
  from c1 c2 c3 c4 readRelease_full show ?thesis unfolding E1_def E2_def E3_def E4_def by blast
qed

section \<open>Fetching the releases\<close>

lemma maxMetadataSize_value: "maxMetadataSize = 102400"
  by (simp add: maxMetadataSize_def)

lemma env_http_fields:
  "http_Get (env_http st b) url = Inr \<lparr>StatusCode = st, Body = (b, None)\<rparr>"
  "json_Decode (env_http st b) = toy_Decode"
  by (simp_all add: env_http_def env0_def)

lemma body_bad_type_short: "io_LimitReader (body_bad_type, None) maxMetadataSize = (body_bad_type, None)"
  by (simp add: io_LimitReader_def maxMetadataSize_value body_bad_type_def)

text \<open>
  C8, as stated, fails for a decode failure. \<open>FetchLatestReleases\<close> drops the error of
  \<open>Decode\<close> and returns the slice the decoder has written to. For a body whose release
  has a field of the wrong type the decoder fails and the slice holds the release all
  the same, so the result of the failed fetch is not empty.
\<close>

theorem FetchLatestReleases_partial_decode:
  "fst (json_Decode (env_http 200 body_bad_type)
          (io_LimitReader (body_bad_type, None) maxMetadataSize)) \<noteq> None \<and>
   FetchLatestReleases (env_http 200 body_bad_type) ''https://x/releases'' ''v1.1.0'' =
     [\<lparr>Tag = ''v1.2.0'', Prerelease = False, Assets = []\<rparr>]"
  by (simp add: FetchLatestReleases_def env_http_fields body_bad_type_short toy_Decode_def)

text \<open>
  C8, amended. A transport failure and a status above 299 give the empty sequence. For
  any other response the function returns what the decoder has stored in the slice,
  whether or not the decoder reports an error: the empty sequence when it has stored
  nothing. The function has no error result.
\<close>

theorem FetchLatestReleases_degrades:
  "(\<forall>err. http_Get E url = Inl err \<longrightarrow> FetchLatestReleases E url version = []) \<and>
   (\<forall>resp. http_Get E url = Inr resp \<and> StatusCode resp > 299 \<longrightarrow>
      FetchLatestReleases E url version = []) \<and>
   (\<forall>resp. http_Get E url = Inr resp \<and> StatusCode resp \<le> 299 \<longrightarrow>
      FetchLatestReleases E url version =
        snd (json_Decode E (io_LimitReader (Body resp) maxMetadataSize))) \<and>
   (\<forall>resp. http_Get E url = Inr resp \<and>
      snd (json_Decode E (io_LimitReader (Body resp) maxMetadataSize)) = [] \<longrightarrow>
      FetchLatestReleases E url version = [])"
  by (auto simp: FetchLatestReleases_def)

theorem FetchLatestReleases_degrades_witness:
  "http_Get env0 ''https://x/releases'' = Inl (ErrLibrary ''connection refused'') \<and>
   FetchLatestReleases env0 ''https://x/releases'' ''v1.1.0'' = [] \<and>
   FetchLatestReleases (env_http 404 ''[]'') ''https://x/releases'' ''v1.1.0'' = [] \<and>
   fst (json_Decode (env_http 200 ''[{'') (io_LimitReader (''[{'', None) maxMetadataSize)) \<noteq> None \<and>
   FetchLatestReleases (env_http 200 ''[{'') ''https://x/releases'' ''v1.1.0'' = [] \<and>
   FetchLatestReleases (env_http 200 body_bad_type) ''https://x/releases'' ''v1.1.0'' =
     [\<lparr>Tag = ''v1.2.0'', Prerelease = False, Assets = []\<rparr>]"
proof -
  have g: "http_Get env0 ''https://x/releases'' = Inl (ErrLibrary ''connection refused'')"
    by (simp add: env0_def)
  note 1 = FetchLatestReleases_degrades[where E=env0 and url="''https://x/releases''"
      and version="''v1.1.0''", THEN conjunct1, rule_format, OF g]
  have p2: "http_Get (env_http 404 ''[]'') ''https://x/releases'' =
              Inr \<lparr>StatusCode = 404, Body = (''[]'', None)\<rparr> \<and>
            StatusCode \<lparr>StatusCode = 404, Body = (''[]'', None)\<rparr> > 299"
    by (simp add: env_http_fields)
  note 2 = FetchLatestReleases_degrades[where E="env_http 404 ''[]''" and url="''https://x/releases''"
      and version="''v1.1.0''", THEN conjunct2, THEN conjunct1, rule_format, OF p2]
  have d3: "json_Decode (env_http 200 ''[{'') (io_LimitReader (''[{'', None) maxMetadataSize) =
              (Some (ErrLibrary ''invalid character''), [])"
    by (simp add: env_http_fields toy_Decode_def io_LimitReader_def maxMetadataSize_value
        body_bad_type_def)
  have p3: "http_Get (env_http 200 ''[{'') ''https://x/releases'' =
              Inr \<lparr>StatusCode = 200, Body = (''[{'', None)\<rparr> \<and>
            snd (json_Decode (env_http 200 ''[{'')
                   (io_LimitReader (Body \<lparr>StatusCode = 200, Body = (''[{'', None)\<rparr>) maxMetadataSize)) = []"
    using d3 by (simp add: env_http_fields)
  note 3 = FetchLatestReleases_degrades[where E="env_http 200 ''[{''" and url="''https://x/releases''"
      and version="''v1.1.0''", THEN conjunct2, THEN conjunct2, THEN conjunct2, rule_format, OF p3]
  have p4: "http_Get (env_http 200 body_bad_type) ''https://x/releases'' =
              Inr \<lparr>StatusCode = 200, Body = (body_bad_type, None)\<rparr> \<and>
            StatusCode \<lparr>StatusCode = 200, Body = (body_bad_type, None)\<rparr> \<le> 299"
    by (simp add: env_http_fields)
  note 4 = FetchLatestReleases_degrades[where E="env_http 200 body_bad_type"
      and url="''https://x/releases''" and version="''v1.1.0''",
      THEN conjunct2, THEN conjunct2, THEN conjunct1, rule_format, OF p4]
  have 5: "FetchLatestReleases (env_http 200 body_bad_type) ''https://x/releases'' ''v1.1.0'' =
     [\<lparr>Tag = ''v1.2.0'', Prerelease = False, Assets = []\<rparr>]"
    unfolding 4 by (simp add: env_http_fields body_bad_type_short toy_Decode_def)
  from g 1 2 3 5 d3 show ?thesis by simp
qed

end
